theory Spec2Isabelle
  imports Main "HOL-Library.Word"
begin

section \<open>Single-precision values\<close>

text \<open>
  The reference model computes with \<^verbatim>\<open>numpy.float32\<close>.  A value is modelled by its
  IEEE-754 binary32 bit pattern, so that "bit-exact" is equality of 32-bit words: bit 31 is
  the sign, bits 30..23 the biased exponent, bits 22..0 the fraction.
\<close>

type_synonym float32 = "32 word"

definition f32_sign :: "float32 \<Rightarrow> bool" where
  "f32_sign w = (2 ^ 31 \<le> uint w)"

definition f32_exp :: "float32 \<Rightarrow> int" where
  "f32_exp w = (uint w div 2 ^ 23) mod 256"

definition f32_man :: "float32 \<Rightarrow> int" where
  "f32_man w = uint w mod 2 ^ 23"

definition f32_is_nan :: "float32 \<Rightarrow> bool" where
  "f32_is_nan w = (f32_exp w = 255 \<and> f32_man w \<noteq> 0)"

definition f32_is_inf :: "float32 \<Rightarrow> bool" where
  "f32_is_inf w = (f32_exp w = 255 \<and> f32_man w = 0)"

definition f32_is_finite :: "float32 \<Rightarrow> bool" where
  "f32_is_finite w = (f32_exp w < 255)"

text \<open>\<^verbatim>\<open>np.float32(-np.inf)\<close> and \<^verbatim>\<open>np.float32(0.0)\<close>.\<close>

definition NEG_INF :: float32 where
  "NEG_INF = 0xFF800000"

definition F32_ZERO :: float32 where
  "F32_ZERO = 0x00000000"

text \<open>
  The quiet NaN returned where an operation has no numeric result.  Which NaN a platform
  delivers there (its sign and payload) is outside the model; nothing below depends on it.
\<close>

definition F32_QNAN :: float32 where
  "F32_QNAN = 0x7FC00000"

text \<open>
  Comparison \<^verbatim>\<open>x > y\<close>: false as soon as one side is a NaN; otherwise the order of
  the sign-magnitude patterns, in which \<open>+0\<close> and \<open>-0\<close> are equal.
\<close>

definition f32_key :: "float32 \<Rightarrow> int" where
  "f32_key w = (if f32_sign w then - (uint w mod 2 ^ 31) else uint w mod 2 ^ 31)"

definition f32_gt :: "float32 \<Rightarrow> float32 \<Rightarrow> bool" where
  "f32_gt x y = (\<not> f32_is_nan x \<and> \<not> f32_is_nan y \<and> f32_key y < f32_key x)"

text \<open>
  Addition \<^verbatim>\<open>x + y\<close> of two \<^verbatim>\<open>numpy.float32\<close>: the exact sum rounded to nearest,
  ties to even.  A finite value is \<open>f32_sig w * 2 ^ (f32_scale w - 150)\<close>.
\<close>

definition f32_pack :: "bool \<Rightarrow> int \<Rightarrow> int \<Rightarrow> float32" where
  "f32_pack s e m = word_of_int ((if s then 2 ^ 31 else 0) + (e mod 256) * 2 ^ 23 + m mod 2 ^ 23)"

definition f32_sig :: "float32 \<Rightarrow> int" where
  "f32_sig w =
     (let m = (if f32_exp w = 0 then f32_man w else 2 ^ 23 + f32_man w)
      in if f32_sign w then - m else m)"

definition f32_scale :: "float32 \<Rightarrow> nat" where
  "f32_scale w = nat (max 1 (f32_exp w))"

text \<open>How many low bits a magnitude has beyond the 24 of a significand.\<close>

function f32_excess :: "int \<Rightarrow> nat" where
  "f32_excess M = (if M < 2 ^ 24 then 0 else Suc (f32_excess (M div 2)))"
  by pat_completeness auto
termination
  by (relation "measure nat") auto

declare f32_excess.simps [simp del]

text \<open>Shift a short magnitude up towards a normal significand, as far as the scale allows.\<close>

function f32_norm :: "int \<Rightarrow> nat \<Rightarrow> int \<times> nat" where
  "f32_norm M q = (if M < 2 ^ 23 \<and> 1 < q then f32_norm (2 * M) (q - 1) else (M, q))"
  by pat_completeness auto
termination
  by (relation "measure (\<lambda>(M, q). q)") auto

declare f32_norm.simps [simp del]

text \<open>Round the magnitude \<open>M * 2 ^ (q - 150)\<close>, with \<open>0 < M\<close> and \<open>1 \<le> q\<close>, to a float.\<close>

definition f32_round :: "bool \<Rightarrow> int \<Rightarrow> nat \<Rightarrow> float32" where
  "f32_round s M q =
     (let sh = f32_excess M;
          hi = M div 2 ^ sh;
          lo = M mod 2 ^ sh;
          up = (0 < sh \<and> (2 ^ (sh - 1) < lo \<or> (lo = 2 ^ (sh - 1) \<and> odd hi)));
          hi1 = (if up then hi + 1 else hi);
          (M1, q1) = (if hi1 = 2 ^ 24 then (2 ^ 23, q + sh + 1) else f32_norm hi1 (q + sh))
      in if 255 \<le> q1 then f32_pack s 255 0
         else if M1 < 2 ^ 23 then f32_pack s 0 M1
         else f32_pack s (int q1) (M1 - 2 ^ 23))"

definition f32_add :: "float32 \<Rightarrow> float32 \<Rightarrow> float32" where
  "f32_add x y =
     (if f32_is_nan x \<or> f32_is_nan y then F32_QNAN
      else if f32_is_inf x then
        (if f32_is_inf y \<and> f32_sign x \<noteq> f32_sign y then F32_QNAN else x)
      else if f32_is_inf y then y
      else
        (let q = min (f32_scale x) (f32_scale y);
             S = f32_sig x * 2 ^ (f32_scale x - q) + f32_sig y * 2 ^ (f32_scale y - q)
         in if S = 0 then f32_pack (f32_sign x \<and> f32_sign y) 0 0
            else f32_round (S < 0) \<bar>S\<bar> q))"

section \<open>Python lists and exceptions\<close>

datatype error = IndexError | ValueError | StructError

definition bind_err :: "error + 'a \<Rightarrow> ('a \<Rightarrow> error + 'b) \<Rightarrow> error + 'b" where
  "bind_err r f = (case r of Inl e \<Rightarrow> Inl e | Inr v \<Rightarrow> f v)"

text \<open>\<^verbatim>\<open>xs[i]\<close>: a negative index counts from the end, anything out of range raises.\<close>

definition py_index :: "'a list \<Rightarrow> int \<Rightarrow> error + 'a" where
  "py_index xs i =
     (let n = int (length xs)
      in if 0 \<le> i \<and> i < n then Inr (xs ! nat i)
         else if - n \<le> i \<and> i < 0 then Inr (xs ! nat (i + n))
         else Inl IndexError)"

text \<open>\<^verbatim>\<open>range(n)\<close>, empty when \<open>n \<le> 0\<close>.\<close>

definition py_range :: "int \<Rightarrow> nat list" where
  "py_range n = [0..<nat n]"

text \<open>A \<^verbatim>\<open>for\<close> loop whose body may raise: the first exception ends it.\<close>

fun for_each :: "('s \<Rightarrow> 'a \<Rightarrow> error + 's) \<Rightarrow> 'a list \<Rightarrow> 's \<Rightarrow> error + 's" where
  "for_each f [] s = Inr s"
| "for_each f (x # xs) s = (case f s x of Inl e \<Rightarrow> Inl e | Inr s' \<Rightarrow> for_each f xs s')"

text \<open>\<^verbatim>\<open>M[t][j] = v\<close> on a list of lists.\<close>

definition set2 :: "'a list list \<Rightarrow> nat \<Rightarrow> nat \<Rightarrow> 'a \<Rightarrow> 'a list list" where
  "set2 M t j v = M[t := (M ! t)[j := v]]"

section \<open>The decoder \<^verbatim>\<open>run_viterbi\<close>\<close>

text \<open>The two tables of one call: \<open>V\<close> the scores, \<open>B\<close> the backtrace pointers.\<close>

record tables =
  V :: "float32 list list"
  B :: "int list list"

text \<open>Step 1, the body of \<^verbatim>\<open>for j in range(n)\<close> at \<open>t = 0\<close>.\<close>

definition init_j ::
  "float32 list list \<Rightarrow> float32 list list \<Rightarrow> int \<Rightarrow> tables \<Rightarrow> nat \<Rightarrow> error + tables" where
  "init_j a_matrix b_matrix obs_idx st j =
     bind_err (py_index a_matrix 0) (\<lambda>row0.
     bind_err (py_index row0 (int j)) (\<lambda>a_0j.
     bind_err (py_index b_matrix (int j)) (\<lambda>rowj.
     bind_err (py_index rowj obs_idx) (\<lambda>b_j_o1.
       Inr (st\<lparr>V := set2 (V st) 0 j (f32_add a_0j b_j_o1), B := set2 (B st) 0 j 0\<rparr>)))))"

text \<open>Step 2, the body of \<^verbatim>\<open>for i in range(n)\<close>: the running maximum and its index.\<close>

definition scan_i ::
  "float32 list list \<Rightarrow> float32 list list \<Rightarrow> nat \<Rightarrow> nat \<Rightarrow> float32 \<times> int \<Rightarrow> nat
     \<Rightarrow> error + float32 \<times> int" where
  "scan_i a_matrix Vt t j acc i =
     bind_err (py_index Vt (int t - 1)) (\<lambda>prev.
     bind_err (py_index prev (int i)) (\<lambda>v.
     bind_err (py_index a_matrix (int i + 1)) (\<lambda>rowi.
     bind_err (py_index rowi (int j)) (\<lambda>a_ij.
       (let prob = f32_add v a_ij
        in Inr (if f32_gt prob (fst acc) then (prob, int i) else acc))))))"

text \<open>Step 2, the body of \<^verbatim>\<open>for j in range(n)\<close> at time \<open>t\<close>.\<close>

definition step_j ::
  "int \<Rightarrow> float32 list list \<Rightarrow> float32 list list \<Rightarrow> int \<Rightarrow> nat \<Rightarrow> tables \<Rightarrow> nat
     \<Rightarrow> error + tables" where
  "step_j n a_matrix b_matrix obs_idx t st j =
     bind_err (for_each (scan_i a_matrix (V st) t j) (py_range n) (NEG_INF, 0)) (\<lambda>(max_prob, max_state).
     bind_err (py_index b_matrix (int j)) (\<lambda>rowj.
     bind_err (py_index rowj obs_idx) (\<lambda>b_j_o.
       Inr (st\<lparr>V := set2 (V st) t j (f32_add max_prob b_j_o), B := set2 (B st) t j max_state\<rparr>))))"

text \<open>Step 2, the body of \<^verbatim>\<open>for t in range(1, T)\<close>.\<close>

definition step_t ::
  "int \<Rightarrow> float32 list list \<Rightarrow> float32 list list \<Rightarrow> int list \<Rightarrow> tables \<Rightarrow> nat
     \<Rightarrow> error + tables" where
  "step_t n a_matrix b_matrix obs_sequence st t =
     bind_err (py_index obs_sequence (int t)) (\<lambda>sym.
       for_each (step_j n a_matrix b_matrix (sym - 1) t) (py_range n) st)"

text \<open>Steps 1 and 2 together: the tables as they stand when the termination step starts.\<close>

definition viterbi_tables ::
  "int \<Rightarrow> float32 list list \<Rightarrow> float32 list list \<Rightarrow> int list \<Rightarrow> error + tables" where
  "viterbi_tables n a_matrix b_matrix obs_sequence =
     (let T = length obs_sequence;
          st0 = \<lparr>V = replicate T (replicate (nat n) NEG_INF),
                 B = replicate T (replicate (nat n) 0)\<rparr>
      in bind_err (py_index obs_sequence 0) (\<lambda>sym.
         bind_err (for_each (init_j a_matrix b_matrix (sym - 1)) (py_range n) st0) (\<lambda>st1.
           for_each (step_t n a_matrix b_matrix obs_sequence) [1..<T] st1)))"

text \<open>Step 3, the body of the loop that picks the final state.\<close>

definition final_j :: "float32 list list \<Rightarrow> nat \<Rightarrow> float32 \<times> int \<Rightarrow> nat \<Rightarrow> error + float32 \<times> int" where
  "final_j Vt T acc j =
     bind_err (py_index Vt (int T - 1)) (\<lambda>last_row.
     bind_err (py_index last_row (int j)) (\<lambda>v.
       Inr (if f32_gt v (fst acc) then (v, int j) else acc)))"

text \<open>Step 4, the body of \<^verbatim>\<open>for t in range(T - 2, -1, -1)\<close>.\<close>

definition back_t :: "int list list \<Rightarrow> int list \<Rightarrow> nat \<Rightarrow> error + int list" where
  "back_t Bt path t =
     bind_err (py_index Bt (int t + 1)) (\<lambda>row.
     bind_err (py_index path (int t + 1)) (\<lambda>p.
     bind_err (py_index row (p - 1)) (\<lambda>s.
       Inr (path[t := s + 1]))))"

definition run_viterbi ::
  "int \<Rightarrow> int \<Rightarrow> float32 list list \<Rightarrow> float32 list list \<Rightarrow> int list
     \<Rightarrow> error + int list \<times> float32" where
  "run_viterbi n m a_matrix b_matrix obs_sequence =
     (let T = length obs_sequence
      in if T = 0 then Inr ([], NEG_INF)
         else
           bind_err (viterbi_tables n a_matrix b_matrix obs_sequence) (\<lambda>st.
           bind_err (for_each (final_j (V st) T) (py_range n) (NEG_INF, 0)) (\<lambda>(final_prob, final_state).
           bind_err (for_each (back_t (B st)) (rev [0..<T - 1]) ((replicate T 0)[T - 1 := final_state + 1]))
             (\<lambda>path. Inr (path, final_prob)))))"

section \<open>Text: \<^verbatim>\<open>str.strip\<close>, \<^verbatim>\<open>int\<close> and formatting\<close>

text \<open>
  A Python \<^verbatim>\<open>str\<close> is modelled as a \<open>string\<close> whose characters are the code points
  below 256.  \<^verbatim>\<open>str.strip()\<close> removes the characters for which \<^verbatim>\<open>str.isspace\<close>
  holds; \<^verbatim>\<open>int\<close> skips a smaller set around its literal.
\<close>

definition py_isspace :: "char \<Rightarrow> bool" where
  "py_isspace c = ((of_char c :: int) \<in> {9, 10, 11, 12, 13, 28, 29, 30, 31, 32, 133, 160})"

definition py_strip :: "string \<Rightarrow> string" where
  "py_strip s = rev (dropWhile py_isspace (rev (dropWhile py_isspace s)))"

definition int_isspace :: "char \<Rightarrow> bool" where
  "int_isspace c = ((of_char c :: int) \<in> {9, 10, 11, 12, 13, 32, 133, 160})"

text \<open>The value of a digit character: \<open>0-9\<close>, then \<open>a-z\<close> and \<open>A-Z\<close> from ten on.\<close>

definition digit_val :: "char \<Rightarrow> int option" where
  "digit_val c =
     (let k = (of_char c :: int)
      in if 48 \<le> k \<and> k \<le> 57 then Some (k - 48)
         else if 97 \<le> k \<and> k \<le> 122 then Some (k - 87)
         else if 65 \<le> k \<and> k \<le> 90 then Some (k - 55)
         else None)"

text \<open>
  The digits of a literal: single underscores may separate digits; the flag says that the
  previous position does not allow an underscore (start of the digits, or an underscore).
\<close>

fun parse_digits :: "int \<Rightarrow> string \<Rightarrow> bool \<Rightarrow> int \<Rightarrow> int option" where
  "parse_digits base [] us acc = (if us then None else Some acc)"
| "parse_digits base (c # cs) us acc =
     (if c = CHR ''_'' then (if us then None else parse_digits base cs True acc)
      else (case digit_val c of
              None \<Rightarrow> None
            | Some d \<Rightarrow> if d < base then parse_digits base cs False (acc * base + d) else None))"

text \<open>
  \<^verbatim>\<open>int(s, base)\<close> for base 10 or 16: surrounding whitespace, an optional sign, for
  base 16 an optional \<^verbatim>\<open>0x\<close> prefix (which one underscore may follow), then the digits.
  A decimal literal of more than 4300 digits is refused (the interpreter's default limit).
  Every failure is a \<^verbatim>\<open>ValueError\<close>.
\<close>

definition py_int :: "string \<Rightarrow> int \<Rightarrow> error + int" where
  "py_int s base =
     (let t = rev (dropWhile int_isspace (rev (dropWhile int_isspace s)));
          neg = (case t of [] \<Rightarrow> False | c # cs \<Rightarrow> c = CHR ''-'');
          r = (case t of [] \<Rightarrow> [] | c # cs \<Rightarrow> if c = CHR ''+'' \<or> c = CHR ''-'' then cs else t);
          r1 = (case r of
                  c0 # c1 # cs \<Rightarrow>
                    if base = 16 \<and> c0 = CHR ''0'' \<and> (c1 = CHR ''x'' \<or> c1 = CHR ''X'')
                    then (case cs of [] \<Rightarrow> cs | u # cs' \<Rightarrow> if u = CHR ''_'' then cs' else cs)
                    else r
                | _ \<Rightarrow> r)
      in case parse_digits base r1 True 0 of
           None \<Rightarrow> Inl ValueError
         | Some v \<Rightarrow>
             if base = 10 \<and> 4300 < length (filter (\<lambda>c. c \<noteq> CHR ''_'') r1) then Inl ValueError
             else Inr (if neg then - v else v))"

text \<open>\<^verbatim>\<open>f"{v:08X}"\<close> and \<^verbatim>\<open>f"{v}"\<close> for an integer \<open>v\<close>.\<close>

definition hex_digit :: "int \<Rightarrow> char" where
  "hex_digit d = ''0123456789ABCDEF'' ! nat d"

function hex_digits :: "int \<Rightarrow> string" where
  "hex_digits v = (if v < 16 then [hex_digit v] else hex_digits (v div 16) @ [hex_digit (v mod 16)])"
  by pat_completeness auto
termination
  by (relation "measure nat") auto

declare hex_digits.simps [simp del]

definition fmt_08X :: "int \<Rightarrow> string" where
  "fmt_08X v = (let ds = hex_digits v in replicate (8 - length ds) (CHR ''0'') @ ds)"

function dec_digits :: "int \<Rightarrow> string" where
  "dec_digits v = (if v < 10 then [hex_digit v] else dec_digits (v div 10) @ [hex_digit (v mod 10)])"
  by pat_completeness auto
termination
  by (relation "measure nat") auto

declare dec_digits.simps [simp del]

definition str_int :: "int \<Rightarrow> string" where
  "str_int v = (if v < 0 then CHR ''-'' # dec_digits (- v) else dec_digits v)"

section \<open>The codec: \<^verbatim>\<open>hex_to_float\<close> and \<^verbatim>\<open>write_output_val\<close>\<close>

text \<open>
  Both directions go through \<^verbatim>\<open>struct\<close>'s \<^verbatim>\<open>'f'\<close> code, whose Python side is a
  double: \<^verbatim>\<open>struct.unpack('f', ..)\<close> widens the four bytes to a double and
  \<^verbatim>\<open>np.float32(..)\<close> narrows it again; \<^verbatim>\<open>struct.pack('f', x)\<close> takes the double of
  \<open>x\<close> and narrows it.  Widening and narrowing again gives back every number and both
  infinities exactly; a NaN comes back quiet, that is with bit 22 set and the other bits kept.
\<close>

definition f32_via_double :: "float32 \<Rightarrow> float32" where
  "f32_via_double w = (if f32_is_nan w then word_of_int (uint w + (if f32_man w < 2 ^ 22 then 2 ^ 22 else 0)) else w)"

text \<open>
  The body of the \<^verbatim>\<open>try\<close>: \<^verbatim>\<open>int(hex_str, 16)\<close> may raise \<^verbatim>\<open>ValueError\<close>,
  \<^verbatim>\<open>struct.pack('I', int_val)\<close> raises \<^verbatim>\<open>struct.error\<close> outside \<open>0 .. 2^32 - 1\<close>.
\<close>

definition hex_to_float_try :: "string \<Rightarrow> error + float32" where
  "hex_to_float_try hex_str =
     bind_err (py_int hex_str 16) (\<lambda>int_val.
       if 0 \<le> int_val \<and> int_val < 2 ^ 32 then Inr (f32_via_double (word_of_int int_val))
       else Inl StructError)"

text \<open>
  \<^verbatim>\<open>except Exception\<close>: the message is printed (not modelled) and \<^verbatim>\<open>np.float32(0.0)\<close>
  is returned.  The result type keeps an error side so that raising can be stated.
\<close>

definition hex_to_float :: "string \<Rightarrow> error + float32" where
  "hex_to_float hex_str =
     (case hex_to_float_try hex_str of Inl e \<Rightarrow> Inr F32_ZERO | Inr x \<Rightarrow> Inr x)"

text \<open>The text \<^verbatim>\<open>write_output_val(f, val, is_float=True)\<close> writes for a float, without the newline.\<close>

definition float_to_hex :: "float32 \<Rightarrow> string" where
  "float_to_hex val = fmt_08X (uint (f32_via_double val))"

text \<open>
  \<^verbatim>\<open>write_output_val\<close> by the type of \<open>val\<close> at its call sites: a float with
  \<^verbatim>\<open>is_float=True\<close>, an integer, a string.  The file is the text written so far.
\<close>

definition write_output_float :: "string \<Rightarrow> float32 \<Rightarrow> string" where
  "write_output_float f val = f @ float_to_hex val @ [CHR 0x0A]"

definition write_output_int :: "string \<Rightarrow> int \<Rightarrow> string" where
  "write_output_int f val = f @ str_int val @ [CHR 0x0A]"

definition write_output_str :: "string \<Rightarrow> string \<Rightarrow> string" where
  "write_output_str f val = f @ val @ [CHR 0x0A]"

section \<open>Files and the batch loop of \<^verbatim>\<open>main\<close>\<close>

text \<open>Text mode reads \<^verbatim>\<open>\r\n\<close> and \<^verbatim>\<open>\r\<close> as \<^verbatim>\<open>\n\<close>.\<close>

fun universal_newlines :: "string \<Rightarrow> string" where
  "universal_newlines [] = []"
| "universal_newlines [c] = [if c = CHR 0x0D then CHR 0x0A else c]"
| "universal_newlines (c # d # cs) =
     (if c = CHR 0x0D \<and> d = CHR 0x0A then CHR 0x0A # universal_newlines cs
      else if c = CHR 0x0D then CHR 0x0A # universal_newlines (d # cs)
      else c # universal_newlines (d # cs))"

text \<open>
  The lines \<^verbatim>\<open>readline()\<close> returns one after the other (and \<^verbatim>\<open>readlines()\<close> at once):
  each ends with its newline, except possibly the last; none is empty, so that the empty
  string \<^verbatim>\<open>readline()\<close> returns at the end of the file is the end of this list.
\<close>

fun lines_from :: "string \<Rightarrow> string \<Rightarrow> string list" where
  "lines_from [] cur = (if cur = [] then [] else [cur])"
| "lines_from (c # cs) cur =
     (if c = CHR 0x0A then (cur @ [c]) # lines_from cs [] else lines_from cs (cur @ [c]))"

definition readlines :: "string \<Rightarrow> string list" where
  "readlines text = lines_from (universal_newlines text) []"

text \<open>
  Loading a matrix: \<^verbatim>\<open>lines[idx].strip()\<close> goes to \<^verbatim>\<open>hex_to_float\<close>, row by row.
\<close>

definition load_cell ::
  "string list \<Rightarrow> nat \<Rightarrow> float32 list list \<times> int \<Rightarrow> nat \<Rightarrow> error + float32 list list \<times> int" where
  "load_cell lines i st j =
     bind_err (py_index lines (snd st)) (\<lambda>l.
     bind_err (hex_to_float (py_strip l)) (\<lambda>x.
       Inr (set2 (fst st) i j x, snd st + 1)))"

definition load_matrix :: "int \<Rightarrow> int \<Rightarrow> string list \<Rightarrow> error + float32 list list" where
  "load_matrix rows cols lines =
     bind_err (for_each (\<lambda>st i. for_each (load_cell lines i) (py_range cols) st) (py_range rows)
                 (replicate (nat rows) (replicate (nat cols) F32_ZERO), 0))
       (\<lambda>st. Inr (fst st))"

text \<open>
  The \<^verbatim>\<open>while True\<close> loop over \<^verbatim>\<open>Input.dat\<close>.  The state is the lines not yet read,
  \<^verbatim>\<open>current_sequence\<close> and the text written to the output file; the result is that text
  and the exception that ended the run, if any.  Progress messages are not modelled.
\<close>

fun main_loop ::
  "int \<Rightarrow> int \<Rightarrow> float32 list list \<Rightarrow> float32 list list \<Rightarrow> string list \<Rightarrow> int list \<Rightarrow> string
     \<Rightarrow> string \<times> error option" where
  "main_loop N M A Bm [] current_sequence f_out = (f_out, None)"
| "main_loop N M A Bm (raw # rest) current_sequence f_out =
     (let line = py_strip raw
      in if line = ''FFFFFFFF'' then
           (case run_viterbi N M A Bm current_sequence of
              Inl e \<Rightarrow> (f_out, Some e)
            | Inr (path, prob) \<Rightarrow>
                (let out1 = write_output_str
                              (write_output_float (foldl write_output_int f_out path) prob)
                              ''FFFFFFFF''
                 in case rest of
                      [] \<Rightarrow> (out1, None)
                    | raw_next # rest' \<Rightarrow>
                        (let next_line = py_strip raw_next
                         in if next_line = ''0'' then (write_output_int out1 0, None)
                            else (case py_int next_line 10 of
                                    Inl e \<Rightarrow> (out1, Some e)
                                  | Inr v \<Rightarrow> main_loop N M A Bm rest' [v] out1))))
         else if line \<noteq> ''0'' then
           (case py_int line 10 of
              Inl e \<Rightarrow> (f_out, Some e)
            | Inr v \<Rightarrow> main_loop N M A Bm rest (current_sequence @ [v]) f_out)
         else main_loop N M A Bm rest current_sequence f_out)"

text \<open>The whole \<^verbatim>\<open>with\<close> block, from the text of the input file.\<close>

definition process_input ::
  "int \<Rightarrow> int \<Rightarrow> float32 list list \<Rightarrow> float32 list list \<Rightarrow> string \<Rightarrow> string \<times> error option" where
  "process_input N M A Bm text = main_loop N M A Bm (readlines text) [] []"

section \<open>Notions used to state and prove the properties\<close>

text \<open>
  The running maximum of both \<^verbatim>\<open>argmax\<close> loops, as a function of the candidate scores
  \<open>c i\<close> and the indices scanned.
\<close>

fun argmax_over :: "(nat \<Rightarrow> float32) \<Rightarrow> nat list \<Rightarrow> float32 \<times> int \<Rightarrow> float32 \<times> int" where
  "argmax_over c [] acc = acc"
| "argmax_over c (i # is) acc =
     argmax_over c is (if f32_gt (c i) (fst acc) then (c i, int i) else acc)"

text \<open>The candidate \<open>V[t-1][i] + a_matrix[i+1][j]\<close> of predecessor \<open>i\<close> for state \<open>j\<close>.\<close>

definition cand :: "float32 list list \<Rightarrow> float32 list \<Rightarrow> nat \<Rightarrow> nat \<Rightarrow> float32" where
  "cand a_matrix prev j i = f32_add (prev ! i) (a_matrix ! (i + 1) ! j)"

text \<open>
  A model as the specification describes it: \<open>n \<ge> 1\<close> states, \<open>m \<ge> 1\<close> symbols, a
  transition table of \<open>n + 1\<close> rows and \<open>n\<close> columns, an emission table of \<open>n\<close> rows and
  \<open>m\<close> columns; its values are finite; a sequence has its symbols in \<open>1 .. m\<close>.
\<close>

definition model_shape :: "int \<Rightarrow> int \<Rightarrow> float32 list list \<Rightarrow> float32 list list \<Rightarrow> bool" where
  "model_shape n m a_matrix b_matrix =
     (1 \<le> n \<and> 1 \<le> m \<and>
      length a_matrix = nat n + 1 \<and> (\<forall>r \<in> set a_matrix. length r = nat n) \<and>
      length b_matrix = nat n \<and> (\<forall>r \<in> set b_matrix. length r = nat m))"

definition model_finite :: "float32 list list \<Rightarrow> float32 list list \<Rightarrow> bool" where
  "model_finite a_matrix b_matrix =
     ((\<forall>r \<in> set a_matrix. \<forall>x \<in> set r. f32_is_finite x) \<and>
      (\<forall>r \<in> set b_matrix. \<forall>x \<in> set r. f32_is_finite x))"

definition valid_sequence :: "int \<Rightarrow> int list \<Rightarrow> bool" where
  "valid_sequence m obs_sequence = (\<forall>sym \<in> set obs_sequence. 1 \<le> sym \<and> sym \<le> m)"

text \<open>The tables have \<open>T\<close> rows of \<open>n\<close> cells.\<close>

definition tables_shape :: "nat \<Rightarrow> nat \<Rightarrow> tables \<Rightarrow> bool" where
  "tables_shape T n st =
     (length (V st) = T \<and> length (B st) = T \<and>
      (\<forall>r < T. length (V st ! r) = n \<and> length (B st ! r) = n))"

text \<open>Row \<open>t \<ge> 1\<close> of both tables is what the scan over row \<open>t - 1\<close> gives.\<close>

definition row_ok :: "nat \<Rightarrow> float32 list list \<Rightarrow> float32 list list \<Rightarrow> int list \<Rightarrow> tables \<Rightarrow> nat \<Rightarrow> bool" where
  "row_ok n a b obs st t =
     (\<forall>j<n. B st ! t ! j = snd (argmax_over (cand a (V st ! (t - 1)) j) [0..<n] (NEG_INF, 0)) \<and>
             V st ! t ! j = f32_add (fst (argmax_over (cand a (V st ! (t - 1)) j) [0..<n] (NEG_INF, 0)))
                                (b ! j ! nat (obs ! t - 1)))"

text \<open>
  What a successful call on a non-empty sequence has computed: the tables \<open>st\<close>, the
  result \<open>fin\<close> of the final scan and the path.
\<close>

definition decoded ::
  "int \<Rightarrow> int \<Rightarrow> float32 list list \<Rightarrow> float32 list list \<Rightarrow> int list \<Rightarrow> tables \<Rightarrow> int list
     \<Rightarrow> float32 \<times> int \<Rightarrow> bool" where
  "decoded n m a b obs st path fin =
     (viterbi_tables n a b obs = Inr st \<and>
      tables_shape (length obs) (nat n) st \<and>
      (\<forall>j<nat n. V st ! 0 ! j = f32_add (a ! 0 ! j) (b ! j ! nat (obs ! 0 - 1)) \<and> B st ! 0 ! j = 0) \<and>
      (\<forall>t. 1 \<le> t \<and> t < length obs \<longrightarrow> row_ok (nat n) a b obs st t) \<and>
      fin = argmax_over (\<lambda>j. V st ! (length obs - 1) ! j) [0..<nat n] (NEG_INF, 0) \<and>
      run_viterbi n m a b obs = Inr (path, fst fin) \<and>
      length path = length obs \<and>
      path ! (length obs - 1) = snd fin + 1 \<and>
      (\<forall>t<length obs - 1. path ! t = B st ! (t + 1) ! nat (path ! (t + 1) - 1) + 1) \<and>
      (\<forall>t<length obs. 1 \<le> path ! t \<and> path ! t \<le> n))"

text \<open>
  Two concrete models.  The first is the all-zero model of the specification's end-to-end
  example (\<open>N = 2\<close>, \<open>M = 2\<close>, every log-probability \<open>0.0\<close>); the second has \<open>N = 2\<close>,
  \<open>M = 3\<close> and distinct negative log-probabilities (\<open>-0.5\<close>, \<open>-1.0\<close>, ...).
\<close>

definition zero_A :: "float32 list list" where
  "zero_A = [[0, 0], [0, 0], [0, 0]]"

definition zero_B :: "float32 list list" where
  "zero_B = [[0, 0], [0, 0]]"

definition example_A :: "float32 list list" where
  "example_A = [[0xBF000000, 0xBF800000], [0xBE800000, 0xC0000000], [0xBFC00000, 0xBE000000]]"

definition example_B :: "float32 list list" where
  "example_B = [[0xBF800000, 0xC0000000, 0xBF000000], [0xBE800000, 0xBFC00000, 0xC0400000]]"

text \<open>
  A model with \<open>N = 3\<close>, \<open>M = 1\<close> in which states 1 and 2 tie above state 0 at every step:
  start scores \<open>-1, 0, 0\<close>, all transitions \<open>0\<close>, emissions \<open>-4, 0, 0\<close>.
\<close>

definition tie_A :: "float32 list list" where
  "tie_A = [[0xBF800000, 0, 0], [0, 0, 0], [0, 0, 0], [0, 0, 0]]"

definition tie_B :: "float32 list list" where
  "tie_B = [[0xC0800000], [0], [0]]"

text \<open>The characters \<^verbatim>\<open>%08X\<close> produces, and the number a string of them denotes.\<close>

definition is_hex_upper :: "char \<Rightarrow> bool" where
  "is_hex_upper c = (c \<in> set ''0123456789ABCDEF'')"

definition hex_value :: "string \<Rightarrow> int \<Rightarrow> int" where
  "hex_value s acc = foldl (\<lambda>a c. a * 16 + the (digit_val c)) acc s"

section \<open>Loops, lists and the running maximum\<close>

lemma bind_err_Inr [simp]: "bind_err (Inr v) f = f v"
  by (simp add: bind_err_def)

lemma bind_err_Inl [simp]: "bind_err (Inl e) f = Inl e"
  by (simp add: bind_err_def)

lemma py_index_ok: "0 \<le> i \<Longrightarrow> i < int (length xs) \<Longrightarrow> py_index xs i = Inr (xs ! nat i)"
  by (simp add: py_index_def)

lemma py_index_nat: "i < length xs \<Longrightarrow> py_index xs (int i) = Inr (xs ! i)"
  by (simp add: py_index_def)

lemma for_each_append:
  "for_each f (xs @ ys) s = bind_err (for_each f xs s) (for_each f ys)"
  by (induction xs arbitrary: s) (auto split: sum.splits)

lemma for_each_snoc:
  "for_each f (xs @ [x]) s = bind_err (for_each f xs s) (\<lambda>s'. f s' x)"
  by (cases "for_each f xs s") (auto simp: for_each_append split: sum.splits)

lemma for_each_argmax:
  "(\<And>i acc. i \<in> set is \<Longrightarrow> f acc i = Inr (if f32_gt (c i) (fst acc) then (c i, int i) else acc))
   \<Longrightarrow> for_each f is acc = Inr (argmax_over c is acc)"
  by (induction "is" arbitrary: acc) simp_all

lemma argmax_over_cases:
  "argmax_over c is acc = acc \<or> (\<exists>i \<in> set is. argmax_over c is acc = (c i, int i) \<and> \<not> f32_is_nan (c i))"
proof (induction "is" arbitrary: acc)
  case Nil
  then show ?case by simp
next
  case (Cons i "is")
  show ?case
    using Cons.IH [of "if f32_gt (c i) (fst acc) then (c i, int i) else acc"]
    by (auto simp: f32_gt_def split: if_splits)
qed

lemma argmax_over_none:
  "\<forall>i \<in> set is. \<not> f32_gt (c i) (fst acc) \<Longrightarrow> argmax_over c is acc = acc"
  by (induction "is" arbitrary: acc) simp_all

lemma f32_gt_trans_neg:
  "\<not> f32_gt x y \<Longrightarrow> \<not> f32_gt y z \<Longrightarrow> \<not> f32_is_nan y \<Longrightarrow> \<not> f32_gt x z"
  by (auto simp: f32_gt_def)

lemma argmax_over_upper:
  "\<not> f32_is_nan (fst acc) \<Longrightarrow>
   \<not> f32_gt (fst acc) (fst (argmax_over c is acc)) \<and>
   (\<forall>i \<in> set is. \<not> f32_gt (c i) (fst (argmax_over c is acc))) \<and>
   \<not> f32_is_nan (fst (argmax_over c is acc))"
proof (induction "is" arbitrary: acc)
  case Nil
  then show ?case by (simp add: f32_gt_def)
next
  case (Cons i "is")
  let ?acc = "if f32_gt (c i) (fst acc) then (c i, int i) else acc"
  have n: "\<not> f32_is_nan (fst ?acc)" using Cons.prems by (auto simp: f32_gt_def)
  note ih = Cons.IH [OF n]
  have a: "\<not> f32_gt (fst acc) (fst ?acc)" by (auto simp: f32_gt_def)
  have b: "\<not> f32_gt (c i) (fst ?acc)" by (auto simp: f32_gt_def)
  show ?case using ih a b n
    by (auto simp del: fst_conv dest: f32_gt_trans_neg)
qed

lemma argmax_over_lowest:
  "sorted_wrt (<) is \<Longrightarrow> i \<in> set is \<Longrightarrow> \<not> f32_is_nan (c i) \<Longrightarrow>
   \<forall>k \<in> set is. \<not> f32_gt (c k) (c i) \<Longrightarrow> \<not> f32_gt (fst acc) (c i) \<Longrightarrow>
   \<forall>k \<in> set is. snd acc \<le> int k \<Longrightarrow>
   snd (argmax_over c is acc) \<le> int i"
proof (induction "is" arbitrary: acc)
  case Nil
  then show ?case by simp
next
  case (Cons h "is")
  let ?acc = "if f32_gt (c h) (fst acc) then (c h, int h) else acc"
  show ?case
  proof (cases "i = h")
    case True
    have "\<forall>k \<in> set is. \<not> f32_gt (c k) (fst ?acc)"
      using Cons.prems True by (auto dest: f32_gt_trans_neg)
    then have "argmax_over c is ?acc = ?acc" by (rule argmax_over_none)
    then show ?thesis using Cons.prems True by auto
  next
    case False
    then have i: "i \<in> set is" using Cons.prems by simp
    have s: "sorted_wrt (<) is" and h: "\<forall>k \<in> set is. h < k" using Cons.prems by auto
    have 1: "\<not> f32_gt (fst ?acc) (c i)" using Cons.prems by auto
    have 2: "\<forall>k \<in> set is. snd ?acc \<le> int k" using Cons.prems h by auto
    have 3: "\<forall>k \<in> set is. \<not> f32_gt (c k) (c i)" using Cons.prems by auto
    show ?thesis using Cons.IH [OF s i Cons.prems(3) 3 1 2] by simp
  qed
qed

lemma set2_length [simp]: "length (set2 M t j v) = length M"
  by (simp add: set2_def)

lemma set2_nth:
  "set2 M t j v ! r = (if r = t \<and> t < length M then (M ! t)[j := v] else M ! r)"
  by (cases "t < length M") (simp_all add: set2_def nth_list_update list_update_beyond)

lemma tables_shape_set2:
  "tables_shape T n st \<Longrightarrow>
   tables_shape T n (st\<lparr>V := set2 (V st) t j x, B := set2 (B st) t j y\<rparr>)"
  by (simp add: tables_shape_def set2_nth)

lemma init_loop:
  assumes "tables_shape T n st" "0 < T" "0 < length a" "n \<le> length (a ! 0)" "n \<le> length b"
    "0 \<le> oi" "\<forall>j<n. oi < int (length (b ! j))"
  shows "k \<le> n \<Longrightarrow> \<exists>st'. for_each (init_j a b oi) [0..<k] st = Inr st' \<and> tables_shape T n st' \<and>
     (\<forall>r. r \<noteq> 0 \<longrightarrow> V st' ! r = V st ! r \<and> B st' ! r = B st ! r) \<and>
     (\<forall>j<k. V st' ! 0 ! j = f32_add (a ! 0 ! j) (b ! j ! nat oi) \<and> B st' ! 0 ! j = 0)"
proof (induction k)
  case 0
  then show ?case using assms by simp
next
  case (Suc k)
  then obtain st1 where st1: "for_each (init_j a b oi) [0..<k] st = Inr st1"
    "tables_shape T n st1" "\<forall>r. r \<noteq> 0 \<longrightarrow> V st1 ! r = V st ! r \<and> B st1 ! r = B st ! r"
    "\<forall>j<k. V st1 ! 0 ! j = f32_add (a ! 0 ! j) (b ! j ! nat oi) \<and> B st1 ! 0 ! j = 0"
    by auto
  have k: "k < n" using Suc.prems by simp
  let ?st2 = "st1\<lparr>V := set2 (V st1) 0 k (f32_add (a ! 0 ! k) (b ! k ! nat oi)), B := set2 (B st1) 0 k 0\<rparr>"
  have step: "init_j a b oi st1 k = Inr ?st2"
    using assms k by (simp add: init_j_def py_index_ok py_index_nat)
  have len: "length (V st1) = T" "length (B st1) = T" "length (V st1 ! 0) = n" "length (B st1 ! 0) = n"
    using st1(2) assms(2) by (auto simp: tables_shape_def)
  have "for_each (init_j a b oi) [0..<Suc k] st = Inr ?st2"
    using st1(1) step by (simp add: for_each_snoc)
  moreover have "tables_shape T n ?st2" using st1(2) by (rule tables_shape_set2)
  moreover have "\<forall>r. r \<noteq> 0 \<longrightarrow> V ?st2 ! r = V st ! r \<and> B ?st2 ! r = B st ! r"
    using st1(3) by (simp add: set2_nth)
  moreover have "\<forall>j<Suc k. V ?st2 ! 0 ! j = f32_add (a ! 0 ! j) (b ! j ! nat oi) \<and> B ?st2 ! 0 ! j = 0"
    using st1(4) len assms(2) k by (auto simp: set2_nth nth_list_update less_Suc_eq)
  ultimately show ?case by blast
qed

lemma scan_loop:
  assumes "1 \<le> t" "t - 1 < length Vt" "n \<le> length (Vt ! (t - 1))" "n + 1 \<le> length a"
    "\<forall>i<n. j < length (a ! (i + 1))"
  shows "for_each (scan_i a Vt t j) [0..<n] acc = Inr (argmax_over (cand a (Vt ! (t - 1)) j) [0..<n] acc)"
proof (rule for_each_argmax)
  fix i acc assume "i \<in> set [0..<n]"
  then have i: "i < n" by simp
  have a1: "py_index Vt (int t - 1) = Inr (Vt ! (t - 1))"
    using py_index_nat [of "t - 1" Vt] assms(1,2) by (simp add: of_nat_diff)
  have a2: "py_index (Vt ! (t - 1)) (int i) = Inr (Vt ! (t - 1) ! i)"
    using assms(3) i by (simp add: py_index_nat)
  have a3: "py_index a (int i + 1) = Inr (a ! (i + 1))"
    using py_index_nat [of "i + 1" a] assms(4) i by (simp add: add.commute)
  have a4: "py_index (a ! (i + 1)) (int j) = Inr (a ! (i + 1) ! j)"
    using assms(5) i by (simp add: py_index_nat)
  show "scan_i a Vt t j acc i =
      Inr (if f32_gt (cand a (Vt ! (t - 1)) j i) (fst acc) then (cand a (Vt ! (t - 1)) j i, int i) else acc)"
    unfolding scan_i_def a1 a2 a3 a4 bind_err_Inr cand_def Let_def by simp
qed

lemma step_loop:
  assumes "tables_shape T n st" "1 \<le> t" "t < T" "n + 1 \<le> length a"
    "\<forall>i<n. n \<le> length (a ! (i + 1))" "n \<le> length b"
    "0 \<le> oi" "\<forall>j<n. oi < int (length (b ! j))"
  shows "k \<le> n \<Longrightarrow> \<exists>st'. for_each (step_j (int n) a b oi t) [0..<k] st = Inr st' \<and> tables_shape T n st' \<and>
     (\<forall>r. r \<noteq> t \<longrightarrow> V st' ! r = V st ! r \<and> B st' ! r = B st ! r) \<and>
     (\<forall>j<k. B st' ! t ! j = snd (argmax_over (cand a (V st ! (t - 1)) j) [0..<n] (NEG_INF, 0)) \<and>
             V st' ! t ! j = f32_add (fst (argmax_over (cand a (V st ! (t - 1)) j) [0..<n] (NEG_INF, 0)))
                                (b ! j ! nat oi))"
proof (induction k)
  case 0
  then show ?case using assms by simp
next
  case (Suc k)
  let ?best = "\<lambda>j. argmax_over (cand a (V st ! (t - 1)) j) [0..<n] (NEG_INF, 0)"
  from Suc obtain st1 where st1: "for_each (step_j (int n) a b oi t) [0..<k] st = Inr st1"
    "tables_shape T n st1" "\<forall>r. r \<noteq> t \<longrightarrow> V st1 ! r = V st ! r \<and> B st1 ! r = B st ! r"
    "\<forall>j<k. B st1 ! t ! j = snd (?best j) \<and> V st1 ! t ! j = f32_add (fst (?best j)) (b ! j ! nat oi)"
    by auto
  have k: "k < n" using Suc.prems by simp
  have prev: "V st1 ! (t - 1) = V st ! (t - 1)" using st1(3) assms(2) by simp
  have len: "length (V st1) = T" "length (B st1) = T" "length (V st1 ! t) = n" "length (B st1 ! t) = n"
    "length (V st1 ! (t - 1)) = n"
    using st1(2) assms(2,3) by (auto simp: tables_shape_def)
  have c1: "t - 1 < length (V st1)" using len assms(3) by simp
  have c2: "\<forall>i<n. k < length (a ! (i + 1))" using assms(5) k by fastforce
  have scan: "for_each (scan_i a (V st1) t k) [0..<n] (NEG_INF, 0) = Inr (?best k)"
    using scan_loop [OF assms(2) c1 _ assms(4) c2, where acc = "(NEG_INF, 0)"] len prev by simp
  let ?st2 = "st1\<lparr>V := set2 (V st1) t k (f32_add (fst (?best k)) (b ! k ! nat oi)),
                   B := set2 (B st1) t k (snd (?best k))\<rparr>"
  have step: "step_j (int n) a b oi t st1 k = Inr ?st2"
    using assms k scan by (simp add: step_j_def py_range_def py_index_ok py_index_nat split_beta)
  have "for_each (step_j (int n) a b oi t) [0..<Suc k] st = Inr ?st2"
    using st1(1) step by (simp add: for_each_snoc)
  moreover have "tables_shape T n ?st2" using st1(2) by (rule tables_shape_set2)
  moreover have "\<forall>r. r \<noteq> t \<longrightarrow> V ?st2 ! r = V st ! r \<and> B ?st2 ! r = B st ! r"
    using st1(3) by (simp add: set2_nth)
  moreover have "\<forall>j<Suc k. B ?st2 ! t ! j = snd (?best j) \<and>
       V ?st2 ! t ! j = f32_add (fst (?best j)) (b ! j ! nat oi)"
    using st1(4) len assms(3) k by (auto simp: set2_nth nth_list_update less_Suc_eq)
  ultimately show ?case by blast
qed

lemma model_shape_dims:
  assumes "model_shape n m a b"
  shows "int (nat n) = n" "0 < nat n" "nat n + 1 \<le> length a" "0 < length a" "nat n \<le> length (a ! 0)"
    "\<forall>i<nat n. nat n \<le> length (a ! (i + 1))" "nat n \<le> length b"
    "\<forall>j<nat n. length (b ! j) = nat m" "\<forall>i<nat n + 1. length (a ! i) = nat n"
  using assms by (auto simp: model_shape_def)

lemma valid_sequence_idx:
  assumes "model_shape n m a b" "valid_sequence m obs" "t < length obs"
  shows "0 \<le> obs ! t - 1" "\<forall>j<nat n. obs ! t - 1 < int (length (b ! j))"
proof -
  have "obs ! t \<in> set obs" using assms(3) by simp
  then have r: "1 \<le> obs ! t" "obs ! t \<le> m" using assms(2) by (auto simp: valid_sequence_def)
  show "0 \<le> obs ! t - 1" using r by simp
  show "\<forall>j<nat n. obs ! t - 1 < int (length (b ! j))"
    using r model_shape_dims(8) [OF assms(1)] by auto
qed

lemma time_loop:
  assumes ms: "model_shape n m a b" and vs: "valid_sequence m obs"
    and sh: "tables_shape (length obs) (nat n) st1"
  shows "k \<le> length obs \<Longrightarrow>
     \<exists>st'. for_each (step_t n a b obs) [1..<k] st1 = Inr st' \<and> tables_shape (length obs) (nat n) st' \<and>
       (\<forall>r. r = 0 \<or> k \<le> r \<longrightarrow> V st' ! r = V st1 ! r \<and> B st' ! r = B st1 ! r) \<and>
       (\<forall>t. 1 \<le> t \<and> t < k \<longrightarrow> row_ok (nat n) a b obs st' t)"
proof (induction k)
  case 0
  then show ?case using sh by simp
next
  case (Suc k)
  show ?case
  proof (cases "k = 0")
    case True
    then show ?thesis using sh by simp
  next
    case False
    then have k1: "1 \<le> k" by simp
    have kT: "k < length obs" using Suc.prems by simp
    from Suc obtain st2 where st2: "for_each (step_t n a b obs) [1..<k] st1 = Inr st2"
      "tables_shape (length obs) (nat n) st2"
      "\<forall>r. r = 0 \<or> k \<le> r \<longrightarrow> V st2 ! r = V st1 ! r \<and> B st2 ! r = B st1 ! r"
      "\<forall>t. 1 \<le> t \<and> t < k \<longrightarrow> row_ok (nat n) a b obs st2 t"
      by auto
    note d = model_shape_dims [OF ms]
    note v = valid_sequence_idx [OF ms vs kT]
    obtain st3 where st3: "for_each (step_j (int (nat n)) a b (obs ! k - 1) k) [0..<nat n] st2 = Inr st3"
      "tables_shape (length obs) (nat n) st3"
      "\<forall>r. r \<noteq> k \<longrightarrow> V st3 ! r = V st2 ! r \<and> B st3 ! r = B st2 ! r"
      "\<forall>j<nat n. B st3 ! k ! j = snd (argmax_over (cand a (V st2 ! (k - 1)) j) [0..<nat n] (NEG_INF, 0)) \<and>
             V st3 ! k ! j = f32_add (fst (argmax_over (cand a (V st2 ! (k - 1)) j) [0..<nat n] (NEG_INF, 0)))
                                (b ! j ! nat (obs ! k - 1))"
      using step_loop [OF st2(2) k1 kT d(3) d(6) d(7) v(1) v(2), of "nat n"] by auto
    have step: "step_t n a b obs st2 k = Inr st3"
      using st3(1) kT d(1) by (simp add: step_t_def py_index_nat py_range_def)
    have run: "for_each (step_t n a b obs) [1..<Suc k] st1 = Inr st3"
      using k1 st2(1) step by (simp add: for_each_snoc)
    have frame: "\<forall>r. r = 0 \<or> Suc k \<le> r \<longrightarrow> V st3 ! r = V st1 ! r \<and> B st3 ! r = B st1 ! r"
      using st2(3) st3(3) k1 by auto
    have prev: "V st3 ! (k - 1) = V st2 ! (k - 1)" using st3(3) k1 by simp
    have rows: "row_ok (nat n) a b obs st3 t" if t: "1 \<le> t \<and> t < Suc k" for t
    proof (cases "t = k")
      case True
      then show ?thesis using st3(4) prev by (simp add: row_ok_def)
    next
      case False
      then have tk: "t < k" "t \<noteq> k" "t - 1 \<noteq> k" using t by auto
      have "row_ok (nat n) a b obs st2 t" using st2(4) t tk by simp
      then show ?thesis using st3(3) tk by (simp add: row_ok_def)
    qed
    show ?thesis using run st3(2) frame rows by blast
  qed
qed

lemma viterbi_tables_ok:
  assumes ms: "model_shape n m a b" and vs: "valid_sequence m obs" and ne: "obs \<noteq> []"
  shows "\<exists>st. viterbi_tables n a b obs = Inr st \<and> tables_shape (length obs) (nat n) st \<and>
     (\<forall>j<nat n. V st ! 0 ! j = f32_add (a ! 0 ! j) (b ! j ! nat (obs ! 0 - 1)) \<and> B st ! 0 ! j = 0) \<and>
     (\<forall>t. 1 \<le> t \<and> t < length obs \<longrightarrow> row_ok (nat n) a b obs st t)"
proof -
  let ?T = "length obs" and ?N = "nat n"
  let ?st0 = "\<lparr>V = replicate ?T (replicate ?N NEG_INF), B = replicate ?T (replicate ?N 0)\<rparr>"
  have T: "0 < ?T" using ne by simp
  note d = model_shape_dims [OF ms]
  note v = valid_sequence_idx [OF ms vs T]
  have sh0: "tables_shape ?T ?N ?st0" by (simp add: tables_shape_def)
  obtain st1 where st1: "for_each (init_j a b (obs ! 0 - 1)) [0..<?N] ?st0 = Inr st1"
    "tables_shape ?T ?N st1"
    "\<forall>j<?N. V st1 ! 0 ! j = f32_add (a ! 0 ! j) (b ! j ! nat (obs ! 0 - 1)) \<and> B st1 ! 0 ! j = 0"
    using init_loop [OF sh0 T d(4) d(5) d(7) v(1) v(2), of ?N] by auto
  obtain st2 where st2: "for_each (step_t n a b obs) [1..<?T] st1 = Inr st2"
    "tables_shape ?T ?N st2"
    "\<forall>r. r = 0 \<or> ?T \<le> r \<longrightarrow> V st2 ! r = V st1 ! r \<and> B st2 ! r = B st1 ! r"
    "\<forall>t. 1 \<le> t \<and> t < ?T \<longrightarrow> row_ok ?N a b obs st2 t"
    using time_loop [OF ms vs st1(2), of ?T] by auto
  have "viterbi_tables n a b obs = Inr st2"
    using st1(1) st2(1) T by (simp add: viterbi_tables_def Let_def py_index_ok py_range_def)
  then show ?thesis using st2 st1(3) by auto
qed

lemma uint_word32_of_int: "uint (word_of_int k :: 32 word) = k mod 2 ^ 32"
  by (simp add: uint_word_of_int_eq take_bit_eq_mod)

lemma div_mod_parts:
  fixes K :: int
  assumes "0 \<le> r" "r < K"
  shows "(q * K + r) div K = q" "(q * K + r) mod K = r"
  using assms by (simp_all add: div_pos_pos_trivial mod_pos_pos_trivial)

lemma pack_div:
  fixes E Mm :: int
  assumes "0 \<le> E" "E < 256" "0 \<le> Mm" "Mm < 8388608"
  shows "(2147483648 + E * 8388608 + Mm) div 8388608 mod 256 = E"
    "(E * 8388608 + Mm) div 8388608 mod 256 = E"
    "(2147483648 + E * 8388608 + Mm) mod 8388608 = Mm"
    "(E * 8388608 + Mm) mod 8388608 = Mm"
proof -
  have eq: "2147483648 + E * 8388608 + Mm = (256 + E) * 8388608 + Mm" by (simp add: algebra_simps)
  have d1: "((256 + E) * 8388608 + Mm) div 8388608 = 256 + E"
    using assms by (rule_tac div_mod_parts(1)) simp_all
  have d2: "(E * 8388608 + Mm) div 8388608 = E"
    using assms by (rule_tac div_mod_parts(1)) simp_all
  have m1: "((256 + E) * 8388608 + Mm) mod 8388608 = Mm"
    using assms by (rule_tac div_mod_parts(2)) simp_all
  have m2: "(E * 8388608 + Mm) mod 8388608 = Mm"
    using assms by (rule_tac div_mod_parts(2)) simp_all
  have e: "(256 + E) mod 256 = E" "E mod 256 = E" using assms by simp_all
  show "(2147483648 + E * 8388608 + Mm) div 8388608 mod 256 = E" unfolding eq d1 by (rule e)
  show "(E * 8388608 + Mm) div 8388608 mod 256 = E" unfolding d2 by (rule e)
  show "(2147483648 + E * 8388608 + Mm) mod 8388608 = Mm" unfolding eq by (rule m1)
  show "(E * 8388608 + Mm) mod 8388608 = Mm" by (rule m2)
qed

lemma neg_inf_arith:
  fixes u :: int
  assumes "4286578688 \<le> u" "u < 4294967296"
  shows "u div 8388608 mod 256 = 255" "u mod 8388608 = u - 4286578688"
proof -
  have eq: "u = 511 * 8388608 + (u - 4286578688)" by simp
  have r: "0 \<le> u - 4286578688" "u - 4286578688 < 8388608" using assms by simp_all
  have d: "(511 * 8388608 + (u - 4286578688)) div 8388608 = 511"
    using r by (rule div_mod_parts(1))
  have m: "(511 * 8388608 + (u - 4286578688)) mod 8388608 = u - 4286578688"
    using r by (rule div_mod_parts(2))
  show "u div 8388608 mod 256 = 255" using d eq by simp
  show "u mod 8388608 = u - 4286578688" using m eq by simp
qed

lemma uint_f32_pack:
  "uint (f32_pack s e m) = (if s then 2147483648 else 0) + (e mod 256) * 8388608 + m mod 8388608"
proof -
  have e: "0 \<le> e mod 256" "e mod 256 < 256" by simp_all
  have m: "0 \<le> m mod 8388608" "m mod 8388608 < 8388608" by simp_all
  define k where "k = (if s then 2147483648 else 0) + (e mod 256) * 8388608 + m mod 8388608"
  have "0 \<le> k" "k < 4294967296" using e m by (auto simp: k_def)
  then have "k mod 2 ^ 32 = k" by simp
  moreover have "f32_pack s e m = word_of_int k" by (simp add: f32_pack_def k_def)
  ultimately have "uint (f32_pack s e m) = k" by (simp only: uint_word32_of_int)
  then show ?thesis by (simp add: k_def)
qed

lemma f32_exp_pack: "f32_exp (f32_pack s e m) = e mod 256"
proof -
  have e: "0 \<le> e mod 256" "e mod 256 < 256" by simp_all
  have m: "0 \<le> m mod 8388608" "m mod 8388608 < 8388608" by simp_all
  show ?thesis unfolding f32_exp_def uint_f32_pack
    using pack_div(1,2) [OF e m] by (cases s) simp_all
qed

lemma f32_man_pack: "f32_man (f32_pack s e m) = m mod 2 ^ 23"
proof -
  have e: "0 \<le> e mod 256" "e mod 256 < 256" by simp_all
  have m: "0 \<le> m mod 8388608" "m mod 8388608 < 8388608" by simp_all
  show ?thesis unfolding f32_man_def uint_f32_pack
    using pack_div(3,4) [OF e m] by (cases s) simp_all
qed

lemma f32_result_not_nan:
  "\<not> f32_is_nan (if 255 \<le> (q1 :: nat) then f32_pack s 255 0
                     else if M1 < 2 ^ 23 then f32_pack s 0 M1
                     else f32_pack s (int q1) (M1 - 2 ^ 23))"
  by (simp add: f32_is_nan_def f32_man_pack f32_exp_pack)

lemma f32_round_not_nan: "\<not> f32_is_nan (f32_round s M q)"
  unfolding f32_round_def Let_def split_beta by (rule f32_result_not_nan)

lemma f32_add_not_nan:
  assumes "\<not> f32_is_nan x" "f32_is_finite y"
  shows "\<not> f32_is_nan (f32_add x y)"
proof -
  have y: "\<not> f32_is_nan y" "\<not> f32_is_inf y"
    using assms(2) by (auto simp: f32_is_finite_def f32_is_nan_def f32_is_inf_def)
  have z: "\<not> f32_is_nan (f32_pack s 0 0)" for s
    by (simp add: f32_is_nan_def f32_exp_pack)
  show ?thesis using assms(1) y z
    by (simp add: f32_add_def Let_def f32_round_not_nan)
qed

lemma f32_finite_not_nan: "f32_is_finite x \<Longrightarrow> \<not> f32_is_nan x"
  by (simp add: f32_is_finite_def f32_is_nan_def)

lemma NEG_INF_not_nan [simp]: "\<not> f32_is_nan NEG_INF"
  by (simp add: f32_is_nan_def NEG_INF_def f32_exp_def f32_man_def)

lemma not_gt_NEG_INF:
  assumes "\<not> f32_is_nan x" "\<not> f32_gt x NEG_INF"
  shows "x = NEG_INF"
proof -
  define u where "u = uint x"
  have b: "0 \<le> u" "u < 4294967296" using uint_lt2p [of x] by (simp_all add: u_def)
  have k: "f32_key NEG_INF = - 2139095040"
    by (simp add: f32_key_def f32_sign_def NEG_INF_def)
  have kx: "f32_key x = (if 2147483648 \<le> u then - (u mod 2147483648) else u mod 2147483648)"
    by (simp add: f32_key_def f32_sign_def u_def)
  have le: "f32_key x \<le> - 2139095040" using assms k by (simp add: f32_gt_def)
  have m0: "0 \<le> u mod 2147483648" by simp
  have s: "2147483648 \<le> u" using le m0 unfolding kx by (simp split: if_splits)
  have "u = 1 * 2147483648 + (u - 2147483648)" by simp
  moreover have "(1 * 2147483648 + (u - 2147483648)) mod 2147483648 = u - 2147483648"
    using s b by (intro div_mod_parts(2)) simp_all
  ultimately have md: "u mod 2147483648 = u - 2147483648" by simp
  have ge: "4286578688 \<le> u" using le s md unfolding kx by simp
  have ex: "f32_exp x = 255" using neg_inf_arith(1) [OF ge b(2)] by (simp add: f32_exp_def u_def)
  then have "f32_man x = 0" using assms(1) by (simp add: f32_is_nan_def)
  then have "u = 4286578688" using neg_inf_arith(2) [OF ge b(2)] by (simp add: f32_man_def u_def)
  then have "word_of_int (uint x) = (word_of_int 4286578688 :: 32 word)" by (simp add: u_def)
  then show ?thesis by (simp add: NEG_INF_def)
qed

lemma argmax_over_index:
  assumes "0 < n"
  shows "0 \<le> snd (argmax_over c [0..<n] (x, 0))" "snd (argmax_over c [0..<n] (x, 0)) < int n"
  using argmax_over_cases [of c "[0..<n]" "(x, 0)"] assms by auto

lemma final_loop:
  assumes "0 < T" "length Vt = T" "n \<le> length (Vt ! (T - 1))"
  shows "for_each (final_j Vt T) [0..<n] acc = Inr (argmax_over (\<lambda>j. Vt ! (T - 1) ! j) [0..<n] acc)"
proof (rule for_each_argmax)
  fix i acc assume "i \<in> set [0..<n]"
  then have i: "i < n" by simp
  have a1: "py_index Vt (int T - 1) = Inr (Vt ! (T - 1))"
    using py_index_nat [of "T - 1" Vt] assms(1,2) by (simp add: of_nat_diff)
  have a2: "py_index (Vt ! (T - 1)) (int i) = Inr (Vt ! (T - 1) ! i)"
    using assms(3) i by (simp add: py_index_nat)
  show "final_j Vt T acc i =
      Inr (if f32_gt (Vt ! (T - 1) ! i) (fst acc) then (Vt ! (T - 1) ! i, int i) else acc)"
    unfolding final_j_def a1 a2 bind_err_Inr by simp
qed

lemma back_loop:
  assumes len: "length Bt = T" and rows: "\<forall>r<T. length (Bt ! r) = n"
    and rng: "\<forall>r<T. \<forall>j<n. 0 \<le> Bt ! r ! j \<and> Bt ! r ! j < int n"
  shows "k < T \<Longrightarrow> length path = T \<Longrightarrow> \<forall>t. k \<le> t \<and> t < T \<longrightarrow> 1 \<le> path ! t \<and> path ! t \<le> int n \<Longrightarrow>
     \<exists>path'. for_each (back_t Bt) (rev [0..<k]) path = Inr path' \<and> length path' = T \<and>
       (\<forall>t. k \<le> t \<and> t < T \<longrightarrow> path' ! t = path ! t) \<and>
       (\<forall>t<k. path' ! t = Bt ! (t + 1) ! nat (path' ! (t + 1) - 1) + 1) \<and>
       (\<forall>t<T. 1 \<le> path' ! t \<and> path' ! t \<le> int n)"
proof (induction k arbitrary: path)
  case 0
  then show ?case by simp
next
  case (Suc k)
  have k1: "k + 1 < T" using Suc.prems(1) by simp
  define p where "p = path ! (k + 1)"
  have p: "1 \<le> p" "p \<le> int n" using Suc.prems(3) k1 by (auto simp: p_def)
  define s where "s = Bt ! (k + 1) ! nat (p - 1)"
  have pn: "nat (p - 1) < n" using p by auto
  have s: "0 \<le> s" "s < int n" using rng k1 pn by (auto simp: s_def)
  have a1: "py_index Bt (int k + 1) = Inr (Bt ! (k + 1))"
    using py_index_nat [of "k + 1" Bt] k1 len by (simp add: add.commute)
  have a2: "py_index path (int k + 1) = Inr p"
    using py_index_nat [of "k + 1" path] k1 Suc.prems(2) by (simp add: add.commute p_def)
  have a3: "py_index (Bt ! (k + 1)) (p - 1) = Inr s"
    using p rows k1 by (simp add: py_index_ok s_def)
  let ?p1 = "path[k := s + 1]"
  have step: "back_t Bt path k = Inr ?p1"
    unfolding back_t_def a1 bind_err_Inr a2 a3 by simp
  have l1: "length ?p1 = T" using Suc.prems(2) by simp
  have r1: "\<forall>t. k \<le> t \<and> t < T \<longrightarrow> 1 \<le> ?p1 ! t \<and> ?p1 ! t \<le> int n"
    using Suc.prems(2,3) s by (auto simp: nth_list_update)
  have kT: "k < T" using k1 by simp
  from Suc.IH [OF kT l1 r1] obtain path' where
    q: "for_each (back_t Bt) (rev [0..<k]) ?p1 = Inr path'" "length path' = T"
       "\<forall>t. k \<le> t \<and> t < T \<longrightarrow> path' ! t = ?p1 ! t"
       "\<forall>t<k. path' ! t = Bt ! (t + 1) ! nat (path' ! (t + 1) - 1) + 1"
       "\<forall>t<T. 1 \<le> path' ! t \<and> path' ! t \<le> int n"
    by blast
  have run: "for_each (back_t Bt) (rev [0..<Suc k]) path = Inr path'"
    using step q(1) by simp
  have keep: "\<forall>t. Suc k \<le> t \<and> t < T \<longrightarrow> path' ! t = path ! t"
    using q(3) by (auto simp: nth_list_update)
  have atk: "path' ! k = s + 1" using q(3) kT Suc.prems(2) by (simp add: nth_list_update)
  have atk1: "path' ! (k + 1) = p" using q(3) k1 by (simp add: nth_list_update p_def)
  have rec: "\<forall>t<Suc k. path' ! t = Bt ! (t + 1) ! nat (path' ! (t + 1) - 1) + 1"
    using q(4) atk atk1 by (auto simp: less_Suc_eq s_def)
  show ?case using run q(2) keep rec q(5) by blast
qed

lemma run_viterbi_ok:
  assumes ms: "model_shape n m a b" and vs: "valid_sequence m obs" and ne: "obs \<noteq> []"
  shows "\<exists>st path fin. decoded n m a b obs st path fin"
proof -
  let ?T = "length obs" and ?N = "nat n"
  have T: "0 < ?T" using ne by simp
  note d = model_shape_dims [OF ms]
  from viterbi_tables_ok [OF ms vs ne] obtain st where
    st: "viterbi_tables n a b obs = Inr st" "tables_shape ?T ?N st"
      "\<forall>j<?N. V st ! 0 ! j = f32_add (a ! 0 ! j) (b ! j ! nat (obs ! 0 - 1)) \<and> B st ! 0 ! j = 0"
      "\<forall>t. 1 \<le> t \<and> t < ?T \<longrightarrow> row_ok ?N a b obs st t"
    by blast
  define fin where "fin = argmax_over (\<lambda>j. V st ! (?T - 1) ! j) [0..<?N] (NEG_INF, 0)"
  have sh: "length (V st) = ?T" "length (B st) = ?T" "\<forall>r<?T. length (B st ! r) = ?N"
    "length (V st ! (?T - 1)) = ?N"
    using st(2) T by (auto simp: tables_shape_def)
  have rng: "\<forall>r<?T. \<forall>j<?N. 0 \<le> B st ! r ! j \<and> B st ! r ! j < int ?N"
  proof (intro allI impI)
    fix r j assume r: "r < ?T" and j: "j < ?N"
    show "0 \<le> B st ! r ! j \<and> B st ! r ! j < int ?N"
    proof (cases "r = 0")
      case True
      then show ?thesis using st(3) j d(2) by simp
    next
      case False
      then have "row_ok ?N a b obs st r" using st(4) r by simp
      then have "B st ! r ! j = snd (argmax_over (cand a (V st ! (r - 1)) j) [0..<?N] (NEG_INF, 0))"
        using j by (simp add: row_ok_def)
      then show ?thesis using argmax_over_index [OF d(2)] by simp
    qed
  qed
  have fl: "for_each (final_j (V st) ?T) (py_range n) (NEG_INF, 0) = Inr fin"
    using final_loop [OF T sh(1), of ?N "(NEG_INF, 0)"] sh(4) by (simp add: py_range_def fin_def)
  have fr: "0 \<le> snd fin" "snd fin < int ?N"
    using argmax_over_index [OF d(2)] by (simp_all add: fin_def)
  let ?p0 = "(replicate ?T (0::int))[?T - 1 := snd fin + 1]"
  have l0: "length ?p0 = ?T" by simp
  have r0: "\<forall>t. ?T - 1 \<le> t \<and> t < ?T \<longrightarrow> 1 \<le> ?p0 ! t \<and> ?p0 ! t \<le> int ?N"
    using fr T by (auto simp: nth_list_update)
  have kT: "?T - 1 < ?T" using T by simp
  from back_loop [OF sh(2) sh(3) rng kT l0 r0] obtain path where
    p: "for_each (back_t (B st)) (rev [0..<?T - 1]) ?p0 = Inr path" "length path = ?T"
       "\<forall>t. ?T - 1 \<le> t \<and> t < ?T \<longrightarrow> path ! t = ?p0 ! t"
       "\<forall>t<?T - 1. path ! t = B st ! (t + 1) ! nat (path ! (t + 1) - 1) + 1"
       "\<forall>t<?T. 1 \<le> path ! t \<and> path ! t \<le> int ?N"
    by blast
  have run: "run_viterbi n m a b obs = Inr (path, fst fin)"
    using T st(1) fl p(1) by (simp add: run_viterbi_def Let_def split_beta)
  have last: "path ! (?T - 1) = snd fin + 1" using p(3) T by (simp add: nth_list_update)
  have rg: "\<forall>t<?T. 1 \<le> path ! t \<and> path ! t \<le> n" using p(5) d(1) by simp
  show ?thesis unfolding decoded_def using st run p(2) last p(4) rg fin_def by blast
qed

lemma f32_key_lower:
  assumes "\<not> f32_is_nan x"
  shows "- 2139095040 \<le> f32_key x"
proof -
  define u where "u = uint x"
  have "u mod (8388608 * 256) = 8388608 * (u div 8388608 mod 256) + u mod 8388608"
    by (rule zmod_zmult2_eq) simp
  then have split: "u mod 2147483648 = 8388608 * f32_exp x + f32_man x"
    by (simp add: f32_exp_def f32_man_def u_def)
  have e: "0 \<le> f32_exp x" "f32_exp x < 256" and m: "0 \<le> f32_man x" "f32_man x < 8388608"
    by (simp_all add: f32_exp_def f32_man_def)
  define r where "r = u mod 2147483648"
  have "u mod 2147483648 \<le> 2139095040"
  proof (cases "f32_exp x = 255")
    case True
    then have "f32_man x = 0" using assms by (simp add: f32_is_nan_def)
    then show ?thesis using True split by simp
  next
    case False
    then have "f32_exp x \<le> 254" using e by simp
    then show ?thesis using split m by simp
  qed
  then have r1: "r \<le> 2139095040" by (simp add: r_def)
  have r0: "0 \<le> r" by (simp add: r_def)
  have "f32_key x = (if f32_sign x then - r else r)" by (simp add: f32_key_def r_def u_def)
  then show ?thesis using r0 r1 by auto
qed

lemma NEG_INF_not_gt: "\<not> f32_gt NEG_INF x"
proof (cases "f32_is_nan x")
  case True
  then show ?thesis by (simp add: f32_gt_def)
next
  case False
  have "f32_key NEG_INF = - 2139095040"
    by (simp add: f32_key_def f32_sign_def NEG_INF_def)
  then show ?thesis using f32_key_lower [OF False] by (simp add: f32_gt_def)
qed

lemma argmax_first:
  assumes "i < n" "\<not> f32_is_nan (c i)" "\<forall>k<n. \<not> f32_gt (c k) (c i)"
  shows "snd (argmax_over c [0..<n] (NEG_INF, 0)) \<le> int i"
  by (rule argmax_over_lowest) (use assms in \<open>auto simp: NEG_INF_not_gt\<close>)

lemma argmax_none:
  assumes "\<forall>k<n. \<not> f32_gt (c k) NEG_INF"
  shows "argmax_over c [0..<n] (NEG_INF, 0) = (NEG_INF, 0)"
  by (rule argmax_over_none) (use assms in auto)

lemma back_loop_length:
  "for_each (back_t Bt) ts path = Inr path' \<Longrightarrow> length path' = length path"
proof (induction ts arbitrary: path)
  case Nil
  then show ?case by simp
next
  case (Cons t ts)
  then obtain p1 where p1: "back_t Bt path t = Inr p1" "for_each (back_t Bt) ts p1 = Inr path'"
    by (auto split: sum.splits)
  have "length p1 = length path"
    using p1(1) by (auto simp: back_t_def bind_err_def split: sum.splits)
  then show ?case using Cons.IH [OF p1(2)] by simp
qed

lemma argmax_attained:
  assumes n: "0 < n" and nn: "\<forall>i<n. \<not> f32_is_nan (c i)"
  defines "r \<equiv> argmax_over c [0..<n] (NEG_INF, 0)"
  shows "0 \<le> snd r" "nat (snd r) < n" "fst r = c (nat (snd r))"
    "\<forall>i<n. \<not> f32_gt (c i) (c (nat (snd r)))"
    "\<forall>i<nat (snd r). f32_gt (c (nat (snd r))) (c i)"
proof -
  have up: "\<forall>i<n. \<not> f32_gt (c i) (fst r)"
    using argmax_over_upper [of "(NEG_INF, 0)" c "[0..<n]"] by (simp add: r_def)
  show 0: "0 \<le> snd r" and 1: "nat (snd r) < n"
    using argmax_over_index [OF n, of c NEG_INF] by (simp_all add: r_def)
  show 2: "fst r = c (nat (snd r))"
  proof -
    consider "r = (NEG_INF, 0)" | i where "i < n" "r = (c i, int i)"
      using argmax_over_cases [of c "[0..<n]" "(NEG_INF, 0)"] by (auto simp: r_def)
    then show ?thesis
    proof cases
      case 1
      then have "\<not> f32_gt (c 0) NEG_INF" using up n by simp
      then have "c 0 = NEG_INF" using nn n not_gt_NEG_INF by blast
      then show ?thesis using 1 by simp
    next
      case 2
      then show ?thesis by simp
    qed
  qed
  show 3: "\<forall>i<n. \<not> f32_gt (c i) (c (nat (snd r)))" using up 2 by simp
  show "\<forall>i<nat (snd r). f32_gt (c (nat (snd r))) (c i)"
  proof (intro allI impI, rule ccontr)
    fix i assume i: "i < nat (snd r)" and ng: "\<not> f32_gt (c (nat (snd r))) (c i)"
    have in': "i < n" using i 1 by simp
    have "\<forall>k<n. \<not> f32_gt (c k) (c i)"
      using 3 ng nn 1 f32_gt_trans_neg by blast
    then have "snd r \<le> int i" using argmax_first [OF in', of c] nn in' by (simp add: r_def)
    then show False using i by simp
  qed
qed

lemma model_finite_nth:
  assumes "model_shape n m a b" "model_finite a b"
  shows "\<forall>i<nat n + 1. \<forall>j<nat n. f32_is_finite (a ! i ! j)"
    "\<forall>j<nat n. \<forall>k<nat m. f32_is_finite (b ! j ! k)"
proof -
  have la: "length a = nat n + 1" and ra: "\<forall>r \<in> set a. length r = nat n"
    and lb: "length b = nat n" and rb: "\<forall>r \<in> set b. length r = nat m"
    using assms(1) by (simp_all add: model_shape_def)
  have fa: "\<forall>r \<in> set a. \<forall>x \<in> set r. f32_is_finite x"
    and fb: "\<forall>r \<in> set b. \<forall>x \<in> set r. f32_is_finite x"
    using assms(2) by (simp_all add: model_finite_def)
  show "\<forall>i<nat n + 1. \<forall>j<nat n. f32_is_finite (a ! i ! j)"
  proof (intro allI impI)
    fix i j assume i: "i < nat n + 1" and j: "j < nat n"
    have r: "a ! i \<in> set a" using i la by simp
    then have "a ! i ! j \<in> set (a ! i)" using ra j by simp
    then show "f32_is_finite (a ! i ! j)" using fa r by blast
  qed
  show "\<forall>j<nat n. \<forall>k<nat m. f32_is_finite (b ! j ! k)"
  proof (intro allI impI)
    fix j k assume j: "j < nat n" and k: "k < nat m"
    have r: "b ! j \<in> set b" using j lb by simp
    then have "b ! j ! k \<in> set (b ! j)" using rb k by simp
    then show "f32_is_finite (b ! j ! k)" using fb r by blast
  qed
qed

lemma valid_sequence_nat:
  assumes "valid_sequence m obs" "t < length obs"
  shows "nat (obs ! t - 1) < nat m"
proof -
  have "obs ! t \<in> set obs" using assms(2) by simp
  then have "1 \<le> obs ! t" "obs ! t \<le> m" using assms(1) by (auto simp: valid_sequence_def)
  then show ?thesis by simp
qed

lemma tables_not_nan:
  assumes ms: "model_shape n m a b" and mf: "model_finite a b" and vs: "valid_sequence m obs"
    and row0: "\<forall>j<nat n. V st ! 0 ! j = f32_add (a ! 0 ! j) (b ! j ! nat (obs ! 0 - 1))"
    and rows: "\<forall>t. 1 \<le> t \<and> t < length obs \<longrightarrow> row_ok (nat n) a b obs st t"
    and t: "t < length obs" and j: "j < nat n"
  shows "\<not> f32_is_nan (V st ! t ! j)"
proof -
  note f = model_finite_nth [OF ms mf]
  note d = model_shape_dims [OF ms]
  have "nat (obs ! t - 1) < nat m" using valid_sequence_nat [OF vs t] .
  then have fb: "f32_is_finite (b ! j ! nat (obs ! t - 1))" using f(2) j by simp
  show ?thesis
  proof (cases "t = 0")
    case True
    have "f32_is_finite (a ! 0 ! j)" using f(1) j by simp
    then show ?thesis using True row0 j fb by (simp add: f32_add_not_nan f32_finite_not_nan)
  next
    case False
    then have "row_ok (nat n) a b obs st t" using rows t by simp
    then have "V st ! t ! j = f32_add (fst (argmax_over (cand a (V st ! (t - 1)) j) [0..<nat n] (NEG_INF, 0)))
                                (b ! j ! nat (obs ! t - 1))"
      using j by (simp add: row_ok_def)
    moreover have "\<not> f32_is_nan (fst (argmax_over (cand a (V st ! (t - 1)) j) [0..<nat n] (NEG_INF, 0)))"
      using argmax_over_upper [of "(NEG_INF, 0)"] by simp
    ultimately show ?thesis using fb by (simp add: f32_add_not_nan)
  qed
qed

lemma cand_not_nan:
  assumes ms: "model_shape n m a b" and mf: "model_finite a b" and vs: "valid_sequence m obs"
    and dec: "decoded n m a b obs st path fin"
    and t: "1 \<le> t" "t < length obs" and j: "j < nat n" and i: "i < nat n"
  shows "\<not> f32_is_nan (cand a (V st ! (t - 1)) j i)"
proof -
  have row0: "\<forall>j<nat n. V st ! 0 ! j = f32_add (a ! 0 ! j) (b ! j ! nat (obs ! 0 - 1))"
    and rows: "\<forall>t. 1 \<le> t \<and> t < length obs \<longrightarrow> row_ok (nat n) a b obs st t"
    using dec by (simp_all add: decoded_def)
  have t1: "t - 1 < length obs" using t by simp
  have "\<not> f32_is_nan (V st ! (t - 1) ! i)"
    using tables_not_nan [OF ms mf vs row0 rows t1 i] .
  moreover have "f32_is_finite (a ! (i + 1) ! j)"
    using model_finite_nth(1) [OF ms mf] i j by simp
  ultimately show ?thesis by (simp add: cand_def f32_add_not_nan)
qed

lemma main_loop_sentinel_stop:
  assumes "py_strip raw = ''FFFFFFFF''" "run_viterbi N M A Bm cur = Inr (path, prob)"
    "py_strip raw_next = ''0''"
  shows "main_loop N M A Bm (raw # raw_next # rest) cur out =
     (write_output_int (write_output_str (write_output_float (foldl write_output_int out path) prob)
        ''FFFFFFFF'') 0, None)"
  using assms by (simp add: Let_def)

lemma main_loop_sentinel_next:
  assumes "py_strip raw = ''FFFFFFFF''" "run_viterbi N M A Bm cur = Inr (path, prob)"
    "py_strip raw_next \<noteq> ''0''" "py_int (py_strip raw_next) 10 = Inr v"
  shows "main_loop N M A Bm (raw # raw_next # rest) cur out =
     main_loop N M A Bm rest [v]
       (write_output_str (write_output_float (foldl write_output_int out path) prob) ''FFFFFFFF'')"
  using assms by (simp add: Let_def)

lemma main_loop_symbol:
  assumes "py_strip raw \<noteq> ''FFFFFFFF''" "py_strip raw \<noteq> ''0''" "py_int (py_strip raw) 10 = Inr v"
  shows "main_loop N M A Bm (raw # rest) cur out = main_loop N M A Bm rest (cur @ [v]) out"
  using assms by (simp add: Let_def)

lemma main_loop_bad_symbol:
  assumes "py_strip raw \<noteq> ''FFFFFFFF''" "py_strip raw \<noteq> ''0''" "py_int (py_strip raw) 10 = Inl e"
  shows "main_loop N M A Bm (raw # rest) cur out = (out, Some e)"
  using assms by (simp add: Let_def)

lemma main_loop_zero:
  assumes "py_strip raw = ''0''"
  shows "main_loop N M A Bm (raw # rest) cur out = main_loop N M A Bm rest cur out"
  using assms by (simp add: Let_def)

lemma py_int_error: "py_int s base = Inl e \<Longrightarrow> e = ValueError"
  by (auto simp: py_int_def Let_def split: option.splits if_splits)

lemma universal_newlines_Cons:
  "c \<noteq> CHR 0x0D \<Longrightarrow> universal_newlines (c # s) = c # universal_newlines s"
  by (cases s) simp_all

lemma readlines_example:
  "readlines (''1\<newline>2\<newline>FFFFFFFF\<newline>1\<newline>FFFFFFFF\<newline>0\<newline>'' @ extra) =
     ''1\<newline>'' # ''2\<newline>'' # ''FFFFFFFF\<newline>'' # ''1\<newline>'' # ''FFFFFFFF\<newline>'' # ''0\<newline>'' # readlines extra"
  by (simp add: readlines_def universal_newlines_Cons)

lemma hex_digit_table:
  "\<forall>k \<in> {0..<16::nat}. is_hex_upper (hex_digit (int k)) \<and> digit_val (hex_digit (int k)) = Some (int k)"
  by code_simp

lemma hex_digit_props:
  assumes "0 \<le> d" "d < 16"
  shows "is_hex_upper (hex_digit d)" "digit_val (hex_digit d) = Some d"
proof -
  have "nat d \<in> {0..<16}" using assms by simp
  then have "is_hex_upper (hex_digit (int (nat d))) \<and> digit_val (hex_digit (int (nat d))) = Some (int (nat d))"
    using hex_digit_table by blast
  then show "is_hex_upper (hex_digit d)" "digit_val (hex_digit d) = Some d" using assms by simp_all
qed

lemma is_hex_upper_props:
  assumes "is_hex_upper c"
  shows "\<not> int_isspace c" "c \<noteq> CHR ''+''" "c \<noteq> CHR ''-''" "c \<noteq> CHR ''x''" "c \<noteq> CHR ''X''"
    "c \<noteq> CHR ''_''" "\<exists>d. digit_val c = Some d \<and> 0 \<le> d \<and> d < 16"
  using assms by (auto simp: is_hex_upper_def int_isspace_def digit_val_def)

lemma parse_digits_hex:
  "\<forall>c \<in> set s. is_hex_upper c \<Longrightarrow> s \<noteq> [] \<or> \<not> us \<Longrightarrow>
   parse_digits 16 s us acc = Some (hex_value s acc)"
proof (induction s arbitrary: us acc)
  case Nil
  then show ?case by (simp add: hex_value_def)
next
  case (Cons c cs)
  have c: "is_hex_upper c" using Cons.prems(1) by simp
  obtain d where d: "digit_val c = Some d" "0 \<le> d" "d < 16"
    using is_hex_upper_props(7) [OF c] by blast
  have "parse_digits 16 (c # cs) us acc = parse_digits 16 cs False (acc * 16 + d)"
    using is_hex_upper_props(6) [OF c] d by simp
  also have "\<dots> = Some (hex_value cs (acc * 16 + d))"
    using Cons.IH [of False "acc * 16 + d"] Cons.prems(1) by simp
  finally show ?case using d by (simp add: hex_value_def)
qed

lemma hex_value_snoc: "hex_value (s @ [c]) acc = hex_value s acc * 16 + the (digit_val c)"
  by (simp add: hex_value_def)

lemma hex_value_append: "hex_value (s @ t) acc = hex_value t (hex_value s acc)"
  by (simp add: hex_value_def)

lemma hex_value_zeros: "hex_value (replicate k (CHR ''0'')) 0 = 0"
proof (induction k)
  case 0
  then show ?case by (simp add: hex_value_def)
next
  case (Suc k)
  have "replicate (Suc k) (CHR ''0'') = replicate k (CHR ''0'') @ [CHR ''0'']"
    by (simp add: replicate_append_same)
  then show ?case using Suc by (simp add: hex_value_snoc digit_val_def del: replicate_Suc)
qed

lemma hex_digits_props:
  "0 \<le> v \<Longrightarrow> (\<forall>c \<in> set (hex_digits v). is_hex_upper c) \<and> hex_digits v \<noteq> [] \<and>
     hex_value (hex_digits v) acc = acc * 16 ^ length (hex_digits v) + v"
proof (induction v arbitrary: acc rule: hex_digits.induct)
  case (1 v)
  show ?case
  proof (cases "v < 16")
    case True
    then have e: "hex_digits v = [hex_digit v]" by (simp add: hex_digits.simps)
    show ?thesis using hex_digit_props [OF "1.prems" True] by (simp add: e hex_value_def)
  next
    case False
    then have e: "hex_digits v = hex_digits (v div 16) @ [hex_digit (v mod 16)]"
      by (simp add: hex_digits.simps)
    have q: "0 \<le> v div 16" using "1.prems" by simp
    note ih = "1.IH" [OF False q]
    have m: "0 \<le> v mod 16" "v mod 16 < 16" by simp_all
    note hd = hex_digit_props [OF m]
    have "hex_value (hex_digits v) acc = (acc * 16 ^ length (hex_digits (v div 16)) + v div 16) * 16 + v mod 16"
      using ih [of acc] hd by (simp add: e hex_value_snoc)
    also have "\<dots> = acc * 16 ^ length (hex_digits v) + v"
      by (simp add: e algebra_simps)
    finally show ?thesis using ih [of acc] hd by (simp add: e)
  qed
qed

lemma fmt_08X_props:
  assumes "0 \<le> v"
  shows "\<forall>c \<in> set (fmt_08X v). is_hex_upper c" "fmt_08X v \<noteq> []" "hex_value (fmt_08X v) 0 = v"
proof -
  note p = hex_digits_props [OF assms]
  have z: "is_hex_upper (CHR ''0'')" by (simp add: is_hex_upper_def)
  show "\<forall>c \<in> set (fmt_08X v). is_hex_upper c" using p z by (auto simp: fmt_08X_def Let_def)
  show "fmt_08X v \<noteq> []" using p by (simp add: fmt_08X_def Let_def)
  show "hex_value (fmt_08X v) 0 = v"
    using p [of 0] by (simp add: fmt_08X_def Let_def hex_value_append hex_value_zeros)
qed

lemma py_int_hex:
  assumes h: "\<forall>c \<in> set s. is_hex_upper c" and ne: "s \<noteq> []"
  shows "py_int s 16 = Inr (hex_value s 0)"
proof -
  obtain c0 cs where s: "s = c0 # cs" using ne by (cases s) auto
  have c0: "is_hex_upper c0" using h s by simp
  have l: "is_hex_upper (last s)" using h ne by simp
  have d1: "dropWhile int_isspace s = s" using is_hex_upper_props(1) [OF c0] s by simp
  have d2: "dropWhile int_isspace (rev s) = rev s"
    using is_hex_upper_props(1) [OF l] ne by (simp add: dropWhile_eq_self_iff hd_rev)
  have strip: "rev (dropWhile int_isspace (rev (dropWhile int_isspace s))) = s" by (simp add: d1 d2)
  have pd: "parse_digits 16 (c0 # cs) True 0 = Some (hex_value (c0 # cs) 0)"
    using parse_digits_hex [OF h, of True 0] s by simp
  have "py_int (c0 # cs) 16 = Inr (hex_value (c0 # cs) 0)"
  proof (cases cs)
    case Nil
    show ?thesis
      unfolding py_int_def strip [unfolded s] Let_def
      using is_hex_upper_props(2,3) [OF c0] pd Nil by (simp del: parse_digits.simps)
  next
    case (Cons c1 cs')
    have "is_hex_upper c1" using h s Cons by simp
    then have x: "c1 \<noteq> CHR ''x''" "c1 \<noteq> CHR ''X''" using is_hex_upper_props(4,5) by simp_all
    show ?thesis
      unfolding py_int_def strip [unfolded s] Let_def
      using is_hex_upper_props(2,3) [OF c0] pd x Cons by (simp del: parse_digits.simps)
  qed
  then show ?thesis by (simp add: s)
qed

text \<open>
  The scan from \<open>(-inf, 0)\<close> over \<open>0 .. n - 1\<close>, for any bit patterns: when some candidate
  compares greater than negative infinity, the index kept attains the maximum and every
  earlier candidate that is a number is strictly smaller; otherwise the start is kept.
\<close>

lemma argmax_exact:
  fixes c :: "nat \<Rightarrow> float32" and n :: nat
  defines "r \<equiv> argmax_over c [0..<n] (NEG_INF, 0)"
  assumes n: "0 < n"
  shows "(\<forall>k<n. \<not> f32_gt (c k) NEG_INF) \<longrightarrow> r = (NEG_INF, 0)"
    "(\<exists>k<n. f32_gt (c k) NEG_INF) \<longrightarrow>
       0 \<le> snd r \<and> nat (snd r) < n \<and> fst r = c (nat (snd r)) \<and>
       f32_gt (c (nat (snd r))) NEG_INF \<and>
       (\<forall>k<n. \<not> f32_gt (c k) (c (nat (snd r)))) \<and>
       (\<forall>k<nat (snd r). \<not> f32_is_nan (c k) \<longrightarrow> f32_gt (c (nat (snd r))) (c k))"
proof -
  show "(\<forall>k<n. \<not> f32_gt (c k) NEG_INF) \<longrightarrow> r = (NEG_INF, 0)"
    using argmax_none [of n c] by (simp add: r_def)
  show "(\<exists>k<n. f32_gt (c k) NEG_INF) \<longrightarrow>
       0 \<le> snd r \<and> nat (snd r) < n \<and> fst r = c (nat (snd r)) \<and>
       f32_gt (c (nat (snd r))) NEG_INF \<and>
       (\<forall>k<n. \<not> f32_gt (c k) (c (nat (snd r)))) \<and>
       (\<forall>k<nat (snd r). \<not> f32_is_nan (c k) \<longrightarrow> f32_gt (c (nat (snd r))) (c k))"
  proof
    assume "\<exists>k<n. f32_gt (c k) NEG_INF"
    then obtain k0 where k0: "k0 < n" "f32_gt (c k0) NEG_INF" by blast
    have up: "\<forall>i<n. \<not> f32_gt (c i) (fst r)"
      using argmax_over_upper [of "(NEG_INF, 0)" c "[0..<n]"] by (simp add: r_def)
    have "r \<noteq> (NEG_INF, 0)" using up k0 by auto
    then obtain i where i: "i < n" "r = (c i, int i)" "\<not> f32_is_nan (c i)"
      using argmax_over_cases [of c "[0..<n]" "(NEG_INF, 0)"] by (auto simp: r_def)
    have mx: "\<forall>k<n. \<not> f32_gt (c k) (c i)" using up i(2) by simp
    have "\<not> f32_gt (c k0) (c i)" using mx k0(1) by simp
    then have gi: "f32_gt (c i) NEG_INF" using k0(2) i(3) by (auto simp: f32_gt_def)
    have low: "f32_gt (c i) (c k)" if k: "k < i" and nk: "\<not> f32_is_nan (c k)" for k
    proof (rule ccontr)
      assume ng: "\<not> f32_gt (c i) (c k)"
      have kn: "k < n" using k i(1) by simp
      have "\<forall>k'<n. \<not> f32_gt (c k') (c k)" using mx ng i(3) f32_gt_trans_neg by blast
      then have "snd r \<le> int k"
        using argmax_first [where i = k and n = n and c = c] kn nk by (simp add: r_def)
      then show False using k i(2) by simp
    qed
    show "0 \<le> snd r \<and> nat (snd r) < n \<and> fst r = c (nat (snd r)) \<and>
       f32_gt (c (nat (snd r))) NEG_INF \<and>
       (\<forall>k<n. \<not> f32_gt (c k) (c (nat (snd r)))) \<and>
       (\<forall>k<nat (snd r). \<not> f32_is_nan (c k) \<longrightarrow> f32_gt (c (nat (snd r))) (c k))"
      using i gi mx low by simp
  qed
qed

text \<open>
  A signalling NaN becomes a quiet one through a double, every other value is unchanged, and
  a second pass changes nothing: the text round trip gives \<^term>\<open>f32_via_double x\<close>.
\<close>

lemma f32_via_double_nan:
  assumes "f32_is_nan x" "f32_man x < 2 ^ 22"
  shows "f32_is_nan (f32_via_double x)" "\<not> f32_man (f32_via_double x) < 2 ^ 22"
proof -
  define u where "u = uint x"
  define q where "q = u div 8388608"
  define r where "r = u mod 8388608"
  have ub: "0 \<le> u" "u < 4294967296" using uint_lt2p [of x] by (simp_all add: u_def)
  have um: "u = q * 8388608 + r" by (simp add: q_def r_def)
  have rb: "0 \<le> r" "r < 4194304" "r \<noteq> 0"
    using assms by (simp_all add: r_def u_def f32_is_nan_def f32_man_def)
  have qe: "q mod 256 = 255" using assms(1) by (simp add: q_def u_def f32_is_nan_def f32_exp_def)
  have qb: "q < 512" using um ub rb by arith
  have s: "u + 4194304 = q * 8388608 + (r + 4194304)" using um by simp
  have sb: "0 \<le> u + 4194304" "u + 4194304 < 4294967296" using um ub rb qb by arith+
  have y: "f32_via_double x = word_of_int (u + 4194304)"
    using assms by (simp add: f32_via_double_def u_def)
  have "(u + 4194304) mod 2 ^ 32 = u + 4194304"
    using sb by (simp add: mod_pos_pos_trivial)
  then have uy: "uint (f32_via_double x) = q * 8388608 + (r + 4194304)"
    unfolding y uint_word32_of_int using s by simp
  have p: "0 \<le> r + 4194304" "r + 4194304 < 8388608" using rb by simp_all
  have dv: "(q * 8388608 + (r + 4194304)) div 8388608 = q"
    using p by (rule div_mod_parts(1))
  have md: "(q * 8388608 + (r + 4194304)) mod 8388608 = r + 4194304"
    using p by (rule div_mod_parts(2))
  have e: "f32_exp (f32_via_double x) = 255" unfolding f32_exp_def uy using dv qe by simp
  have m: "f32_man (f32_via_double x) = r + 4194304" unfolding f32_man_def uy using md by simp
  show "f32_is_nan (f32_via_double x)" using e m rb by (simp add: f32_is_nan_def)
  show "\<not> f32_man (f32_via_double x) < 2 ^ 22" using m rb by simp
qed

lemma f32_via_double_fixed:
  "f32_via_double x = x \<longleftrightarrow> \<not> (f32_is_nan x \<and> f32_man x < 2 ^ 22)"
proof (cases "f32_is_nan x \<and> f32_man x < 2 ^ 22")
  case True
  then have "\<not> f32_man (f32_via_double x) < 2 ^ 22" using f32_via_double_nan(2) [of x] by simp
  then have "f32_via_double x \<noteq> x" using True by auto
  then show ?thesis using True by simp
next
  case False
  then have "f32_via_double x = x" by (auto simp: f32_via_double_def)
  then show ?thesis using False by simp
qed

lemma f32_via_double_idem: "f32_via_double (f32_via_double x) = f32_via_double x"
proof (cases "f32_is_nan x \<and> f32_man x < 2 ^ 22")
  case True
  note n = f32_via_double_nan [of x]
  have "\<not> (f32_is_nan (f32_via_double x) \<and> f32_man (f32_via_double x) < 2 ^ 22)"
    using n True by simp
  then show ?thesis using f32_via_double_fixed [of "f32_via_double x"] by simp
next
  case False
  then have "f32_via_double x = x" by (auto simp: f32_via_double_def)
  then show ?thesis by simp
qed

lemma hex_round_trip_via_double: "hex_to_float (float_to_hex x) = Inr (f32_via_double x)"
proof -
  define y where "y = f32_via_double x"
  have u: "0 \<le> uint y" "uint y < 2 ^ 32" using uint_lt2p [of y] by simp_all
  note f = fmt_08X_props [OF u(1)]
  have "py_int (fmt_08X (uint y)) 16 = Inr (uint y)"
    using py_int_hex [OF f(1) f(2)] f(3) by simp
  then have "hex_to_float_try (float_to_hex x) = Inr (f32_via_double y)"
    using u by (simp add: hex_to_float_try_def float_to_hex_def y_def)
  then show ?thesis by (simp add: hex_to_float_def y_def f32_via_double_idem)
qed

section \<open>The dynamic-programming tables\<close>

text \<open>
  Claim C1.  For a model of the declared shape and a non-empty sequence with symbols in
  \<open>1 .. m\<close>, the forward pass returns tables with, for every state \<open>j\<close>:
  \<open>V[0][j] = a[0][j] + b[j][sym(0) - 1]\<close> and \<open>B[0][j] = 0\<close>; and for every \<open>t \<ge> 1\<close>,
  \<open>B[t][j]\<close> is a state whose candidate \<open>V[t-1][i] + a[i+1][j]\<close> no other candidate exceeds,
  and \<open>V[t][j]\<close> is that maximal candidate plus \<open>b[j][sym(t) - 1]\<close>, all in single
  precision, bit for bit.  The values of a model are finite, and that is enough; more
  generally the equations of a cell hold whenever none of its candidates is a NaN (a model
  with entries of negative infinity, say).
\<close>

theorem tables_satisfy_recurrence:
  assumes "model_shape n m a_matrix b_matrix" "valid_sequence m obs" "obs \<noteq> []"
  shows "\<exists>st. viterbi_tables n a_matrix b_matrix obs = Inr st \<and>
     (\<forall>j<nat n. V st ! 0 ! j = f32_add (a_matrix ! 0 ! j) (b_matrix ! j ! nat (obs ! 0 - 1)) \<and>
                 B st ! 0 ! j = 0) \<and>
     (\<forall>t j. 1 \<le> t \<and> t < length obs \<and> j < nat n \<and>
            (model_finite a_matrix b_matrix \<or>
             (\<forall>i<nat n. \<not> f32_is_nan (cand a_matrix (V st ! (t - 1)) j i))) \<longrightarrow>
        0 \<le> B st ! t ! j \<and> nat (B st ! t ! j) < nat n \<and>
        (\<forall>i<nat n. \<not> f32_gt (cand a_matrix (V st ! (t - 1)) j i)
                          (cand a_matrix (V st ! (t - 1)) j (nat (B st ! t ! j)))) \<and>
        V st ! t ! j = f32_add (cand a_matrix (V st ! (t - 1)) j (nat (B st ! t ! j)))
                         (b_matrix ! j ! nat (obs ! t - 1)))"
proof -
  from run_viterbi_ok [OF assms] obtain st path fin where
    dec: "decoded n m a_matrix b_matrix obs st path fin" by blast
  have r: "viterbi_tables n a_matrix b_matrix obs = Inr st"
    "\<forall>j<nat n. V st ! 0 ! j = f32_add (a_matrix ! 0 ! j) (b_matrix ! j ! nat (obs ! 0 - 1)) \<and> B st ! 0 ! j = 0"
    "\<forall>t. 1 \<le> t \<and> t < length obs \<longrightarrow> row_ok (nat n) a_matrix b_matrix obs st t"
    using dec by (simp_all add: decoded_def)
  note d = model_shape_dims [OF assms(1)]
  have step: "0 \<le> B st ! t ! j \<and> nat (B st ! t ! j) < nat n \<and>
        (\<forall>i<nat n. \<not> f32_gt (cand a_matrix (V st ! (t - 1)) j i)
                          (cand a_matrix (V st ! (t - 1)) j (nat (B st ! t ! j)))) \<and>
        V st ! t ! j = f32_add (cand a_matrix (V st ! (t - 1)) j (nat (B st ! t ! j)))
                         (b_matrix ! j ! nat (obs ! t - 1))"
    if h: "1 \<le> t \<and> t < length obs \<and> j < nat n \<and>
            (model_finite a_matrix b_matrix \<or>
             (\<forall>i<nat n. \<not> f32_is_nan (cand a_matrix (V st ! (t - 1)) j i)))" for t j
  proof -
    let ?c = "cand a_matrix (V st ! (t - 1)) j"
    let ?r = "argmax_over ?c [0..<nat n] (NEG_INF, 0)"
    have ro: "row_ok (nat n) a_matrix b_matrix obs st t" using r(3) h by simp
    have bt: "B st ! t ! j = snd ?r" and vt: "V st ! t ! j = f32_add (fst ?r) (b_matrix ! j ! nat (obs ! t - 1))"
      using ro h by (simp_all add: row_ok_def)
    have nn: "\<forall>i<nat n. \<not> f32_is_nan (?c i)"
    proof (cases "model_finite a_matrix b_matrix")
      case True
      show ?thesis using cand_not_nan [OF assms(1) True assms(2) dec] h by simp
    next
      case False
      then show ?thesis using h by simp
    qed
    note at = argmax_attained [OF d(2) nn]
    show ?thesis using at(1,2,3,4) bt vt by simp
  qed
  show ?thesis using r(1,2) step by blast
qed

theorem tables_satisfy_recurrence_witness:
  "model_shape 2 3 example_A example_B \<and> model_finite example_A example_B \<and>
   valid_sequence 3 [1, 3, 2, 2, 1] \<and>
   (\<exists>st. viterbi_tables 2 example_A example_B [1, 3, 2, 2, 1] = Inr st \<and>
     (\<forall>j<nat 2. V st ! 0 ! j = f32_add (example_A ! 0 ! j) (example_B ! j ! nat ([1, 3, 2, 2, 1] ! 0 - 1)) \<and>
                 B st ! 0 ! j = 0) \<and>
     (\<forall>t j. 1 \<le> t \<and> t < length [1, 3, 2, 2, 1 :: int] \<and> j < nat 2 \<and>
            (model_finite example_A example_B \<or>
             (\<forall>i<nat 2. \<not> f32_is_nan (cand example_A (V st ! (t - 1)) j i))) \<longrightarrow>
        0 \<le> B st ! t ! j \<and> nat (B st ! t ! j) < nat 2 \<and>
        (\<forall>i<nat 2. \<not> f32_gt (cand example_A (V st ! (t - 1)) j i)
                          (cand example_A (V st ! (t - 1)) j (nat (B st ! t ! j)))) \<and>
        V st ! t ! j = f32_add (cand example_A (V st ! (t - 1)) j (nat (B st ! t ! j)))
                         (example_B ! j ! nat ([1, 3, 2, 2, 1] ! t - 1))))"
proof -
  have h1: "model_shape 2 3 example_A example_B"
    by (simp add: model_shape_def example_A_def example_B_def)
  have h2: "model_finite example_A example_B" by code_simp
  have h3: "valid_sequence 3 [1, 3, 2, 2, 1]" by (simp add: valid_sequence_def)
  have h4: "[1, 3, 2, 2, 1 :: int] \<noteq> []" by simp
  show ?thesis using h1 h2 h3 tables_satisfy_recurrence [OF h1 h3 h4] by blast
qed

section \<open>Ties\<close>

text \<open>
  Claim C2.  In both \<^verbatim>\<open>argmax\<close> loops of the decoder the lowest index wins a tie.
  For \<open>t \<ge> 1\<close> and state \<open>j\<close>, when some candidate score compares greater than negative
  infinity, the pointer \<open>B[t][j]\<close> is an index \<open>0 .. N - 1\<close> whose candidate attains the
  maximum (no candidate is greater) and is strictly greater than every earlier candidate
  that is a number: it is the first index attaining the maximum, so it is at most any index
  \<open>i\<close> that attains it.  The same holds for the final state \<open>path[T-1] - 1\<close> over
  \<open>V[T-1]\<close>, and the probability returned is the score of that state.  When no candidate
  compares greater than negative infinity, index 0 is kept (and the probability returned is
  negative infinity).
\<close>

theorem lowest_index_on_tie:
  assumes "model_shape n m a_matrix b_matrix" "valid_sequence m obs" "obs \<noteq> []"
  shows "\<exists>st path prob.
     viterbi_tables n a_matrix b_matrix obs = Inr st \<and>
     run_viterbi n m a_matrix b_matrix obs = Inr (path, prob) \<and>
     (\<forall>t j. 1 \<le> t \<and> t < length obs \<and> j < nat n \<longrightarrow>
        ((\<exists>k<nat n. f32_gt (cand a_matrix (V st ! (t - 1)) j k) NEG_INF) \<longrightarrow>
           0 \<le> B st ! t ! j \<and> nat (B st ! t ! j) < nat n \<and>
           f32_gt (cand a_matrix (V st ! (t - 1)) j (nat (B st ! t ! j))) NEG_INF \<and>
           (\<forall>k<nat n. \<not> f32_gt (cand a_matrix (V st ! (t - 1)) j k)
                             (cand a_matrix (V st ! (t - 1)) j (nat (B st ! t ! j)))) \<and>
           (\<forall>k<nat (B st ! t ! j). \<not> f32_is_nan (cand a_matrix (V st ! (t - 1)) j k) \<longrightarrow>
              f32_gt (cand a_matrix (V st ! (t - 1)) j (nat (B st ! t ! j)))
                     (cand a_matrix (V st ! (t - 1)) j k))) \<and>
        ((\<forall>k<nat n. \<not> f32_gt (cand a_matrix (V st ! (t - 1)) j k) NEG_INF) \<longrightarrow>
           B st ! t ! j = 0)) \<and>
     (\<forall>t j i. 1 \<le> t \<and> t < length obs \<and> j < nat n \<and> i < nat n \<and>
        \<not> f32_is_nan (cand a_matrix (V st ! (t - 1)) j i) \<and>
        (\<forall>k<nat n. \<not> f32_gt (cand a_matrix (V st ! (t - 1)) j k) (cand a_matrix (V st ! (t - 1)) j i))
        \<longrightarrow> B st ! t ! j \<le> int i) \<and>
     ((\<exists>k<nat n. f32_gt (V st ! (length obs - 1) ! k) NEG_INF) \<longrightarrow>
        1 \<le> path ! (length obs - 1) \<and> nat (path ! (length obs - 1) - 1) < nat n \<and>
        prob = V st ! (length obs - 1) ! nat (path ! (length obs - 1) - 1) \<and>
        f32_gt (V st ! (length obs - 1) ! nat (path ! (length obs - 1) - 1)) NEG_INF \<and>
        (\<forall>k<nat n. \<not> f32_gt (V st ! (length obs - 1) ! k)
                          (V st ! (length obs - 1) ! nat (path ! (length obs - 1) - 1))) \<and>
        (\<forall>k<nat (path ! (length obs - 1) - 1). \<not> f32_is_nan (V st ! (length obs - 1) ! k) \<longrightarrow>
           f32_gt (V st ! (length obs - 1) ! nat (path ! (length obs - 1) - 1))
                  (V st ! (length obs - 1) ! k))) \<and>
     ((\<forall>k<nat n. \<not> f32_gt (V st ! (length obs - 1) ! k) NEG_INF) \<longrightarrow>
        path ! (length obs - 1) = 1 \<and> prob = NEG_INF) \<and>
     (\<forall>i. i < nat n \<and> \<not> f32_is_nan (V st ! (length obs - 1) ! i) \<and>
        (\<forall>k<nat n. \<not> f32_gt (V st ! (length obs - 1) ! k) (V st ! (length obs - 1) ! i))
        \<longrightarrow> path ! (length obs - 1) - 1 \<le> int i)"
proof -
  from run_viterbi_ok [OF assms] obtain st path fin where
    dec: "decoded n m a_matrix b_matrix obs st path fin" by blast
  let ?T = "length obs"
  let ?v = "\<lambda>j. V st ! (?T - 1) ! j"
  have r: "viterbi_tables n a_matrix b_matrix obs = Inr st"
       "\<forall>t. 1 \<le> t \<and> t < ?T \<longrightarrow> row_ok (nat n) a_matrix b_matrix obs st t"
       "fin = argmax_over ?v [0..<nat n] (NEG_INF, 0)"
       "run_viterbi n m a_matrix b_matrix obs = Inr (path, fst fin)"
       "path ! (?T - 1) = snd fin + 1"
    using dec by (simp_all add: decoded_def)
  note d = model_shape_dims [OF assms(1)]
  have bt: "B st ! t ! j = snd (argmax_over (cand a_matrix (V st ! (t - 1)) j) [0..<nat n] (NEG_INF, 0))"
    if "1 \<le> t" "t < ?T" "j < nat n" for t j
    using r(2) that by (simp add: row_ok_def)
  have cell: "((\<exists>k<nat n. f32_gt (cand a_matrix (V st ! (t - 1)) j k) NEG_INF) \<longrightarrow>
           0 \<le> B st ! t ! j \<and> nat (B st ! t ! j) < nat n \<and>
           f32_gt (cand a_matrix (V st ! (t - 1)) j (nat (B st ! t ! j))) NEG_INF \<and>
           (\<forall>k<nat n. \<not> f32_gt (cand a_matrix (V st ! (t - 1)) j k)
                             (cand a_matrix (V st ! (t - 1)) j (nat (B st ! t ! j)))) \<and>
           (\<forall>k<nat (B st ! t ! j). \<not> f32_is_nan (cand a_matrix (V st ! (t - 1)) j k) \<longrightarrow>
              f32_gt (cand a_matrix (V st ! (t - 1)) j (nat (B st ! t ! j)))
                     (cand a_matrix (V st ! (t - 1)) j k))) \<and>
        ((\<forall>k<nat n. \<not> f32_gt (cand a_matrix (V st ! (t - 1)) j k) NEG_INF) \<longrightarrow>
           B st ! t ! j = 0)"
    if h: "1 \<le> t \<and> t < ?T \<and> j < nat n" for t j
  proof -
    let ?c = "cand a_matrix (V st ! (t - 1)) j"
    have b: "B st ! t ! j = snd (argmax_over ?c [0..<nat n] (NEG_INF, 0))"
      using bt [of t j] h by simp
    note ex = argmax_exact [OF d(2), of ?c]
    show ?thesis using ex(1) ex(2) unfolding b by simp
  qed
  have low: "B st ! t ! j \<le> int i"
    if "1 \<le> t \<and> t < ?T \<and> j < nat n \<and> i < nat n \<and>
        \<not> f32_is_nan (cand a_matrix (V st ! (t - 1)) j i) \<and>
        (\<forall>k<nat n. \<not> f32_gt (cand a_matrix (V st ! (t - 1)) j k) (cand a_matrix (V st ! (t - 1)) j i))"
    for t j i
    using that bt [of t j] argmax_first [of i "nat n" "cand a_matrix (V st ! (t - 1)) j"] by simp
  note ex = argmax_exact [OF d(2), of ?v]
  have fs: "path ! (?T - 1) - 1 = snd fin" using r(5) by simp
  have f1: "(\<exists>k<nat n. f32_gt (?v k) NEG_INF) \<longrightarrow>
        1 \<le> path ! (?T - 1) \<and> nat (path ! (?T - 1) - 1) < nat n \<and>
        fst fin = ?v (nat (path ! (?T - 1) - 1)) \<and>
        f32_gt (?v (nat (path ! (?T - 1) - 1))) NEG_INF \<and>
        (\<forall>k<nat n. \<not> f32_gt (?v k) (?v (nat (path ! (?T - 1) - 1)))) \<and>
        (\<forall>k<nat (path ! (?T - 1) - 1). \<not> f32_is_nan (?v k) \<longrightarrow>
           f32_gt (?v (nat (path ! (?T - 1) - 1))) (?v k))"
    using ex(2) r(5) unfolding fs r(3) by simp
  have f2: "(\<forall>k<nat n. \<not> f32_gt (?v k) NEG_INF) \<longrightarrow> path ! (?T - 1) = 1 \<and> fst fin = NEG_INF"
    using ex(1) r(5) unfolding r(3) by simp
  have f3: "path ! (?T - 1) - 1 \<le> int i"
    if "i < nat n \<and> \<not> f32_is_nan (?v i) \<and> (\<forall>k<nat n. \<not> f32_gt (?v k) (?v i))"
    for i
    using that r(3,5) argmax_first [of i "nat n" ?v] by simp
  show ?thesis using r(1,4) cell low f1 f2 f3 by blast
qed

text \<open>
  The model \<^term>\<open>tie_A\<close>, \<^term>\<open>tie_B\<close> on the sequence \<open>1, 1\<close>: at \<open>t = 1\<close> the candidates
  of every state are \<open>-5, 0, 0\<close> and index 1 is kept, not 0 and not 2; the last row is
  \<open>-4, 0, 0\<close> and the final state is 1, so the path is \<open>2, 2\<close>.
\<close>

theorem lowest_index_on_tie_witness:
  "model_shape 3 1 tie_A tie_B \<and> valid_sequence 1 [1, 1] \<and>
   viterbi_tables 3 tie_A tie_B [1, 1] =
     Inr \<lparr>V = [[0xC0A00000, 0, 0], [0xC0800000, 0, 0]], B = [[0, 0, 0], [1, 1, 1]]\<rparr> \<and>
   run_viterbi 3 1 tie_A tie_B [1, 1] = Inr ([2, 2], 0) \<and>
   cand tie_A [0xC0A00000, 0, 0] 0 1 = cand tie_A [0xC0A00000, 0, 0] 0 2 \<and>
   f32_gt (cand tie_A [0xC0A00000, 0, 0] 0 1) (cand tie_A [0xC0A00000, 0, 0] 0 0) \<and>
   (\<exists>st path prob.
     viterbi_tables 3 tie_A tie_B [1, 1] = Inr st \<and>
     run_viterbi 3 1 tie_A tie_B [1, 1] = Inr (path, prob) \<and>
     (\<forall>t j. 1 \<le> t \<and> t < length [1, 1 :: int] \<and> j < nat 3 \<longrightarrow>
        ((\<exists>k<nat 3. f32_gt (cand tie_A (V st ! (t - 1)) j k) NEG_INF) \<longrightarrow>
           0 \<le> B st ! t ! j \<and> nat (B st ! t ! j) < nat 3 \<and>
           f32_gt (cand tie_A (V st ! (t - 1)) j (nat (B st ! t ! j))) NEG_INF \<and>
           (\<forall>k<nat 3. \<not> f32_gt (cand tie_A (V st ! (t - 1)) j k)
                             (cand tie_A (V st ! (t - 1)) j (nat (B st ! t ! j)))) \<and>
           (\<forall>k<nat (B st ! t ! j). \<not> f32_is_nan (cand tie_A (V st ! (t - 1)) j k) \<longrightarrow>
              f32_gt (cand tie_A (V st ! (t - 1)) j (nat (B st ! t ! j)))
                     (cand tie_A (V st ! (t - 1)) j k))) \<and>
        ((\<forall>k<nat 3. \<not> f32_gt (cand tie_A (V st ! (t - 1)) j k) NEG_INF) \<longrightarrow>
           B st ! t ! j = 0)) \<and>
     (\<forall>t j i. 1 \<le> t \<and> t < length [1, 1 :: int] \<and> j < nat 3 \<and> i < nat 3 \<and>
        \<not> f32_is_nan (cand tie_A (V st ! (t - 1)) j i) \<and>
        (\<forall>k<nat 3. \<not> f32_gt (cand tie_A (V st ! (t - 1)) j k) (cand tie_A (V st ! (t - 1)) j i))
        \<longrightarrow> B st ! t ! j \<le> int i) \<and>
     ((\<exists>k<nat 3. f32_gt (V st ! (length [1, 1 :: int] - 1) ! k) NEG_INF) \<longrightarrow>
        1 \<le> path ! (length [1, 1 :: int] - 1) \<and> nat (path ! (length [1, 1 :: int] - 1) - 1) < nat 3 \<and>
        prob = V st ! (length [1, 1 :: int] - 1) ! nat (path ! (length [1, 1 :: int] - 1) - 1) \<and>
        f32_gt (V st ! (length [1, 1 :: int] - 1) ! nat (path ! (length [1, 1 :: int] - 1) - 1)) NEG_INF \<and>
        (\<forall>k<nat 3. \<not> f32_gt (V st ! (length [1, 1 :: int] - 1) ! k)
                          (V st ! (length [1, 1 :: int] - 1) ! nat (path ! (length [1, 1 :: int] - 1) - 1))) \<and>
        (\<forall>k<nat (path ! (length [1, 1 :: int] - 1) - 1). \<not> f32_is_nan (V st ! (length [1, 1 :: int] - 1) ! k) \<longrightarrow>
           f32_gt (V st ! (length [1, 1 :: int] - 1) ! nat (path ! (length [1, 1 :: int] - 1) - 1))
                  (V st ! (length [1, 1 :: int] - 1) ! k))) \<and>
     ((\<forall>k<nat 3. \<not> f32_gt (V st ! (length [1, 1 :: int] - 1) ! k) NEG_INF) \<longrightarrow>
        path ! (length [1, 1 :: int] - 1) = 1 \<and> prob = NEG_INF) \<and>
     (\<forall>i. i < nat 3 \<and> \<not> f32_is_nan (V st ! (length [1, 1 :: int] - 1) ! i) \<and>
        (\<forall>k<nat 3. \<not> f32_gt (V st ! (length [1, 1 :: int] - 1) ! k) (V st ! (length [1, 1 :: int] - 1) ! i))
        \<longrightarrow> path ! (length [1, 1 :: int] - 1) - 1 \<le> int i))"
proof -
  have h1: "model_shape 3 1 tie_A tie_B"
    by (simp add: model_shape_def tie_A_def tie_B_def)
  have h2: "valid_sequence 1 [1, 1]" by (simp add: valid_sequence_def)
  have h3: "[1, 1 :: int] \<noteq> []" by simp
  have tabs: "viterbi_tables 3 tie_A tie_B [1, 1] =
     Inr \<lparr>V = [[0xC0A00000, 0, 0], [0xC0800000, 0, 0]], B = [[0, 0, 0], [1, 1, 1]]\<rparr>"
    by code_simp
  have run: "run_viterbi 3 1 tie_A tie_B [1, 1] = Inr ([2, 2], 0)" by code_simp
  have tie: "cand tie_A [0xC0A00000, 0, 0] 0 1 = cand tie_A [0xC0A00000, 0, 0] 0 2" by code_simp
  have gt: "f32_gt (cand tie_A [0xC0A00000, 0, 0] 0 1) (cand tie_A [0xC0A00000, 0, 0] 0 0)"
    by code_simp
  show ?thesis using h1 h2 tabs run tie gt lowest_index_on_tie [OF h1 h2 h3] by blast
qed

section \<open>Termination and backtrace\<close>

text \<open>
  Claim C3.  For such a model and a non-empty sequence of length \<open>T\<close>, the decoder returns a
  path and a probability with: \<open>final_state = path[T-1] - 1\<close> is a state, no \<open>V[T-1][j]\<close>
  exceeds \<open>V[T-1][final_state]\<close> and every state before \<open>final_state\<close> scores strictly less
  (the lowest-index argmax); the probability is \<open>V[T-1][final_state]\<close>; and for
  \<open>t = T-2, .., 0\<close>, \<open>path[t] = B[t+1][path[t+1] - 1] + 1\<close>, every entry being a 1-indexed
  state.  The part about the probability needs the last row of \<open>V\<close> free of NaN, which the
  finite values of a model ensure.
\<close>

theorem termination_and_backtrace:
  assumes "model_shape n m a_matrix b_matrix" "valid_sequence m obs" "obs \<noteq> []"
  shows "\<exists>st path prob.
     viterbi_tables n a_matrix b_matrix obs = Inr st \<and>
     run_viterbi n m a_matrix b_matrix obs = Inr (path, prob) \<and>
     1 \<le> path ! (length obs - 1) \<and> nat (path ! (length obs - 1) - 1) < nat n \<and>
     (model_finite a_matrix b_matrix \<or> (\<forall>j<nat n. \<not> f32_is_nan (V st ! (length obs - 1) ! j)) \<longrightarrow>
        prob = V st ! (length obs - 1) ! nat (path ! (length obs - 1) - 1) \<and>
        (\<forall>j<nat n. \<not> f32_gt (V st ! (length obs - 1) ! j)
                          (V st ! (length obs - 1) ! nat (path ! (length obs - 1) - 1))) \<and>
        (\<forall>j<nat (path ! (length obs - 1) - 1).
            f32_gt (V st ! (length obs - 1) ! nat (path ! (length obs - 1) - 1))
                   (V st ! (length obs - 1) ! j))) \<and>
     (\<forall>t<length obs - 1. path ! t = B st ! (t + 1) ! nat (path ! (t + 1) - 1) + 1) \<and>
     (\<forall>t<length obs. 1 \<le> path ! t \<and> path ! t \<le> n)"
proof -
  from run_viterbi_ok [OF assms] obtain st path fin where
    dec: "decoded n m a_matrix b_matrix obs st path fin" by blast
  let ?T = "length obs"
  let ?c = "\<lambda>j. V st ! (?T - 1) ! j"
  have r: "viterbi_tables n a_matrix b_matrix obs = Inr st"
    "\<forall>j<nat n. V st ! 0 ! j = f32_add (a_matrix ! 0 ! j) (b_matrix ! j ! nat (obs ! 0 - 1)) \<and> B st ! 0 ! j = 0"
    "\<forall>t. 1 \<le> t \<and> t < ?T \<longrightarrow> row_ok (nat n) a_matrix b_matrix obs st t"
    "fin = argmax_over ?c [0..<nat n] (NEG_INF, 0)"
    "run_viterbi n m a_matrix b_matrix obs = Inr (path, fst fin)"
    "path ! (?T - 1) = snd fin + 1"
    "\<forall>t<?T - 1. path ! t = B st ! (t + 1) ! nat (path ! (t + 1) - 1) + 1"
    "\<forall>t<?T. 1 \<le> path ! t \<and> path ! t \<le> n"
    using dec by (simp_all add: decoded_def)
  note d = model_shape_dims [OF assms(1)]
  have T1: "?T - 1 < ?T" using assms(3) by simp
  have row0: "\<forall>j<nat n. V st ! 0 ! j = f32_add (a_matrix ! 0 ! j) (b_matrix ! j ! nat (obs ! 0 - 1))"
    using r(2) by simp
  have fs: "path ! (?T - 1) - 1 = snd fin" using r(6) by simp
  have p1: "1 \<le> path ! (?T - 1)" using r(8) T1 by simp
  have p2: "nat (path ! (?T - 1) - 1) < nat n"
    using argmax_over_index [OF d(2), of ?c NEG_INF] r(4) fs d(2) by auto
  have best: "fst fin = ?c (nat (path ! (?T - 1) - 1)) \<and>
        (\<forall>j<nat n. \<not> f32_gt (?c j) (?c (nat (path ! (?T - 1) - 1)))) \<and>
        (\<forall>j<nat (path ! (?T - 1) - 1). f32_gt (?c (nat (path ! (?T - 1) - 1))) (?c j))"
    if h: "model_finite a_matrix b_matrix \<or> (\<forall>j<nat n. \<not> f32_is_nan (?c j))"
  proof -
    have nn: "\<forall>j<nat n. \<not> f32_is_nan (?c j)"
    proof (cases "model_finite a_matrix b_matrix")
      case True
      show ?thesis using tables_not_nan [OF assms(1) True assms(2) row0 r(3) T1] by simp
    next
      case False
      then show ?thesis using h by simp
    qed
    note at = argmax_attained [OF d(2) nn]
    show ?thesis using at(3,4,5) r(4) fs by simp
  qed
  show ?thesis using r(1,5,7,8) p1 p2 best by blast
qed

theorem termination_and_backtrace_witness:
  "model_shape 2 3 example_A example_B \<and> model_finite example_A example_B \<and>
   valid_sequence 3 [1, 3, 2, 2, 1] \<and>
   run_viterbi 2 3 example_A example_B [1, 3, 2, 2, 1] = Inr ([1, 1, 2, 2, 2], 0xC0F80000) \<and>
   (\<exists>st path prob.
     viterbi_tables 2 example_A example_B [1, 3, 2, 2, 1] = Inr st \<and>
     run_viterbi 2 3 example_A example_B [1, 3, 2, 2, 1] = Inr (path, prob) \<and>
     1 \<le> path ! (length [1, 3, 2, 2, 1 :: int] - 1) \<and>
     nat (path ! (length [1, 3, 2, 2, 1 :: int] - 1) - 1) < nat 2 \<and>
     prob = V st ! (length [1, 3, 2, 2, 1 :: int] - 1) ! nat (path ! (length [1, 3, 2, 2, 1 :: int] - 1) - 1) \<and>
     (\<forall>j<nat 2. \<not> f32_gt (V st ! (length [1, 3, 2, 2, 1 :: int] - 1) ! j)
                       (V st ! (length [1, 3, 2, 2, 1 :: int] - 1) ! nat (path ! (length [1, 3, 2, 2, 1 :: int] - 1) - 1))) \<and>
     (\<forall>j<nat (path ! (length [1, 3, 2, 2, 1 :: int] - 1) - 1).
         f32_gt (V st ! (length [1, 3, 2, 2, 1 :: int] - 1) ! nat (path ! (length [1, 3, 2, 2, 1 :: int] - 1) - 1))
                (V st ! (length [1, 3, 2, 2, 1 :: int] - 1) ! j)) \<and>
     (\<forall>t<length [1, 3, 2, 2, 1 :: int] - 1. path ! t = B st ! (t + 1) ! nat (path ! (t + 1) - 1) + 1) \<and>
     (\<forall>t<length [1, 3, 2, 2, 1 :: int]. 1 \<le> path ! t \<and> path ! t \<le> 2))"
proof -
  have h1: "model_shape 2 3 example_A example_B"
    by (simp add: model_shape_def example_A_def example_B_def)
  have h2: "model_finite example_A example_B" by code_simp
  have h3: "valid_sequence 3 [1, 3, 2, 2, 1]" by (simp add: valid_sequence_def)
  have h4: "[1, 3, 2, 2, 1 :: int] \<noteq> []" by simp
  have run: "run_viterbi 2 3 example_A example_B [1, 3, 2, 2, 1] = Inr ([1, 1, 2, 2, 2], 0xC0F80000)"
    by code_simp
  show ?thesis using h1 h2 h3 run termination_and_backtrace [OF h1 h3 h4] by blast
qed

section \<open>Malformed hex tokens\<close>

text \<open>
  Claim C4, as amended.  \<^verbatim>\<open>hex_to_float\<close> never fails: when the text is not a hexadecimal
  integer representable in 32 bits (\<^verbatim>\<open>int(text, 16)\<close> raises, or its value is outside
  \<open>0 .. 2^32 - 1\<close>), the exception is caught and \<open>0.0\<close> is returned.
\<close>

theorem hex_to_float_malformed_is_zero:
  "(\<exists>x. hex_to_float text = Inr x) \<and>
   ((\<forall>v. py_int text 16 = Inr v \<longrightarrow> v < 0 \<or> 2 ^ 32 \<le> v) \<longrightarrow> hex_to_float text = Inr F32_ZERO)"
proof (intro conjI impI)
  show "\<exists>x. hex_to_float text = Inr x"
    by (simp add: hex_to_float_def split: sum.splits)
next
  assume h: "\<forall>v. py_int text 16 = Inr v \<longrightarrow> v < 0 \<or> 2 ^ 32 \<le> v"
  have "\<exists>e. hex_to_float_try text = Inl e"
  proof (cases "py_int text 16")
    case (Inl e)
    then show ?thesis by (simp add: hex_to_float_try_def)
  next
    case (Inr v)
    then have "v < 0 \<or> 2 ^ 32 \<le> v" using h by simp
    then show ?thesis using Inr by (auto simp: hex_to_float_try_def)
  qed
  then show "hex_to_float text = Inr F32_ZERO" by (auto simp: hex_to_float_def)
qed

theorem hex_to_float_malformed_is_zero_witness:
  "py_int ''100000000'' 16 = Inr 4294967296 \<and> \<not> (4294967296 :: int) < 2 ^ 32 \<and>
   hex_to_float ''100000000'' = Inr F32_ZERO"
proof -
  have p: "py_int ''100000000'' 16 = Inr 4294967296" by code_simp
  have h: "\<forall>v. py_int ''100000000'' 16 = Inr v \<longrightarrow> v < 0 \<or> 2 ^ 32 \<le> v" by (simp add: p)
  show ?thesis using p h hex_to_float_malformed_is_zero [of "''100000000''"] by simp
qed

theorem hex_to_float_malformed_counterexample:
  "py_int ''ZZZZZZZZ'' 16 = Inl ValueError \<and>
   hex_to_float ''ZZZZZZZZ'' = Inr F32_ZERO \<and>
   load_matrix 3 2 (readlines ''ZZZZZZZZ\<newline>3F800000\<newline>BF800000\<newline>00000000\<newline>C0000000\<newline>40000000\<newline>'')
     = Inr [[0x00000000, 0x3F800000], [0xBF800000, 0x00000000], [0xC0000000, 0x40000000]]"
  by code_simp

section \<open>The codec round trip\<close>


text \<open>
  The signalling NaNs are the only values lost: for every other value, both zeros, the
  subnormals, both infinities and the quiet NaNs included, the round trip is the identity
  (see also \<open>f32_via_double_fixed\<close> and \<open>hex_round_trip_via_double\<close>).
\<close>

lemma hex_round_trip:
  assumes "\<not> (f32_is_nan x \<and> f32_man x < 2 ^ 22)"
  shows "hex_to_float (float_to_hex x) = Inr x"
proof -
  have v: "f32_via_double x = x" using assms by (auto simp: f32_via_double_def)
  have u: "0 \<le> uint x" "uint x < 2 ^ 32" using uint_lt2p [of x] by simp_all
  note f = fmt_08X_props [OF u(1)]
  have "py_int (fmt_08X (uint x)) 16 = Inr (uint x)"
    using py_int_hex [OF f(1) f(2)] f(3) by simp
  then have "hex_to_float_try (float_to_hex x) = Inr x"
    using u v by (simp add: hex_to_float_try_def float_to_hex_def)
  then show ?thesis by (simp add: hex_to_float_def)
qed

lemma hex_round_trip_examples:
  "\<not> (f32_is_nan NEG_INF \<and> f32_man NEG_INF < 2 ^ 22) \<and>
   float_to_hex NEG_INF = ''FF800000'' \<and>
   hex_to_float (float_to_hex NEG_INF) = Inr NEG_INF \<and>
   hex_to_float (float_to_hex 0x7F800000) = Inr 0x7F800000 \<and>
   hex_to_float (float_to_hex 0x80000000) = Inr 0x80000000 \<and>
   hex_to_float (float_to_hex 0x00000001) = Inr 0x00000001 \<and>
   f32_is_nan 0x7FC00000 \<and> hex_to_float (float_to_hex 0x7FC00000) = Inr 0x7FC00000"
proof -
  have h: "\<not> (f32_is_nan NEG_INF \<and> f32_man NEG_INF < 2 ^ 22)" by code_simp
  have e: "float_to_hex NEG_INF = ''FF800000''" by code_simp
  have h1: "\<not> (f32_is_nan 0x7F800000 \<and> f32_man 0x7F800000 < 2 ^ 22)" by code_simp
  have h2: "\<not> (f32_is_nan 0x80000000 \<and> f32_man 0x80000000 < 2 ^ 22)" by code_simp
  have h3: "\<not> (f32_is_nan 0x00000001 \<and> f32_man 0x00000001 < 2 ^ 22)" by code_simp
  have h4: "\<not> (f32_is_nan 0x7FC00000 \<and> f32_man 0x7FC00000 < 2 ^ 22)" by code_simp
  have n: "f32_is_nan 0x7FC00000" by code_simp
  show ?thesis
    using h e n hex_round_trip [OF h] hex_round_trip [OF h1] hex_round_trip [OF h2]
      hex_round_trip [OF h3] hex_round_trip [OF h4]
    by blast
qed

section \<open>The empty sequence\<close>

text \<open>
  Claim C6.  Whatever the model, decoding the empty observation sequence returns the empty
  path and the log-probability negative infinity.
\<close>

theorem run_viterbi_empty:
  "run_viterbi n m a_matrix b_matrix [] = Inr ([], NEG_INF)"
  by (simp add: run_viterbi_def)

section \<open>The length of the path\<close>

text \<open>
  Claim C7.  The path the decoder returns is as long as the observation sequence, the
  sequence of one symbol included: whenever \<^verbatim>\<open>run_viterbi\<close> returns, the lengths agree,
  and for a model of the declared shape and symbols in range it does return.
\<close>

theorem path_length:
  "(model_shape n m a_matrix b_matrix \<and> valid_sequence m obs \<longrightarrow>
      (\<exists>path prob. run_viterbi n m a_matrix b_matrix obs = Inr (path, prob))) \<and>
   (\<forall>path prob. run_viterbi n m a_matrix b_matrix obs = Inr (path, prob) \<longrightarrow>
      length path = length obs)"
proof (intro conjI impI allI)
  assume h: "model_shape n m a_matrix b_matrix \<and> valid_sequence m obs"
  show "\<exists>path prob. run_viterbi n m a_matrix b_matrix obs = Inr (path, prob)"
  proof (cases "obs = []")
    case True
    then show ?thesis by (simp add: run_viterbi_def)
  next
    case False
    from run_viterbi_ok [OF conjunct1 [OF h] conjunct2 [OF h] False] show ?thesis
      unfolding decoded_def by blast
  qed
next
  fix path prob
  assume r: "run_viterbi n m a_matrix b_matrix obs = Inr (path, prob)"
  show "length path = length obs"
  proof (cases "obs = []")
    case True
    then show ?thesis using r by (simp add: run_viterbi_def)
  next
    case False
    then show ?thesis using r
      by (auto simp: run_viterbi_def Let_def bind_err_def split_beta split: sum.splits
               dest: back_loop_length)
  qed
qed

theorem path_length_witness:
  "model_shape 2 2 zero_A zero_B \<and> valid_sequence 2 [2] \<and>
   (\<exists>path prob. run_viterbi 2 2 zero_A zero_B [2] = Inr (path, prob) \<and> length path = length [2 :: int])"
proof -
  have h1: "model_shape 2 2 zero_A zero_B"
    by (simp add: model_shape_def zero_A_def zero_B_def)
  have h2: "valid_sequence 2 [2]" by (simp add: valid_sequence_def)
  show ?thesis using h1 h2 path_length [of 2 2 zero_A zero_B "[2]"] by blast
qed

section \<open>The sentinel and the terminator\<close>

text \<open>
  Claim C8.  On a sentinel line the accumulated sequence is decoded and its block written
  (the path, the probability, \<^verbatim>\<open>FFFFFFFF\<close>), and the next line is read: if it strips to
  \<^verbatim>\<open>"0"\<close>, a final \<^verbatim>\<open>0\<close> line is written and nothing more is read, whatever follows;
  otherwise its integer starts the next sequence.  The input
  \<^verbatim>\<open>"1\n2\nFFFFFFFF\n1\nFFFFFFFF\n0\n"\<close>, followed by anything, gives exactly two blocks and the
  final \<^verbatim>\<open>0\<close> line.
\<close>

theorem sentinel_protocol:
  "(py_strip raw = ''FFFFFFFF'' \<and> run_viterbi N M A Bm cur = Inr (path, prob) \<longrightarrow>
      (py_strip raw_next = ''0'' \<longrightarrow>
         main_loop N M A Bm (raw # raw_next # rest) cur out =
           (write_output_int
              (write_output_str (write_output_float (foldl write_output_int out path) prob) ''FFFFFFFF'')
              0, None)) \<and>
      (py_strip raw_next \<noteq> ''0'' \<longrightarrow>
         (\<forall>v. py_int (py_strip raw_next) 10 = Inr v \<longrightarrow>
            main_loop N M A Bm (raw # raw_next # rest) cur out =
              main_loop N M A Bm rest [v]
                (write_output_str (write_output_float (foldl write_output_int out path) prob) ''FFFFFFFF'')))) \<and>
   process_input 2 2 zero_A zero_B (''1\<newline>2\<newline>FFFFFFFF\<newline>1\<newline>FFFFFFFF\<newline>0\<newline>'' @ extra) =
     (''1\<newline>1\<newline>00000000\<newline>FFFFFFFF\<newline>1\<newline>00000000\<newline>FFFFFFFF\<newline>0\<newline>'', None)"
proof (intro conjI impI allI)
  assume h: "py_strip raw = ''FFFFFFFF'' \<and> run_viterbi N M A Bm cur = Inr (path, prob)"
    and z: "py_strip raw_next = ''0''"
  show "main_loop N M A Bm (raw # raw_next # rest) cur out =
           (write_output_int
              (write_output_str (write_output_float (foldl write_output_int out path) prob) ''FFFFFFFF'')
              0, None)"
    using h z by (intro main_loop_sentinel_stop) simp_all
next
  fix v
  assume h: "py_strip raw = ''FFFFFFFF'' \<and> run_viterbi N M A Bm cur = Inr (path, prob)"
    and z: "py_strip raw_next \<noteq> ''0''" and p: "py_int (py_strip raw_next) 10 = Inr v"
  show "main_loop N M A Bm (raw # raw_next # rest) cur out =
              main_loop N M A Bm rest [v]
                (write_output_str (write_output_float (foldl write_output_int out path) prob) ''FFFFFFFF'')"
    using h z p by (intro main_loop_sentinel_next) simp_all
next
  let ?rest = "readlines extra"
  have s1: "py_strip ''1\<newline>'' = ''1''" and s2: "py_strip ''2\<newline>'' = ''2''"
    and sF: "py_strip ''FFFFFFFF\<newline>'' = ''FFFFFFFF''" and s0: "py_strip ''0\<newline>'' = ''0''"
    by code_simp+
  have p1: "py_int ''1'' 10 = Inr 1" and p2: "py_int ''2'' 10 = Inr 2" by code_simp+
  have r1: "run_viterbi 2 2 zero_A zero_B [1, 2] = Inr ([1, 1], 0)"
    and r2: "run_viterbi 2 2 zero_A zero_B [1] = Inr ([1], 0)" by code_simp+
  have o1: "write_output_str (write_output_float (foldl write_output_int [] [1, 1]) 0) ''FFFFFFFF'' =
      ''1\<newline>1\<newline>00000000\<newline>FFFFFFFF\<newline>''" by code_simp
  have o2: "write_output_int (write_output_str (write_output_float
        (foldl write_output_int ''1\<newline>1\<newline>00000000\<newline>FFFFFFFF\<newline>'' [1]) 0) ''FFFFFFFF'') 0 =
      ''1\<newline>1\<newline>00000000\<newline>FFFFFFFF\<newline>1\<newline>00000000\<newline>FFFFFFFF\<newline>0\<newline>''" by code_simp
  have "process_input 2 2 zero_A zero_B (''1\<newline>2\<newline>FFFFFFFF\<newline>1\<newline>FFFFFFFF\<newline>0\<newline>'' @ extra) =
      main_loop 2 2 zero_A zero_B
        (''1\<newline>'' # ''2\<newline>'' # ''FFFFFFFF\<newline>'' # ''1\<newline>'' # ''FFFFFFFF\<newline>'' # ''0\<newline>'' # ?rest) [] []"
    by (simp only: process_input_def readlines_example)
  also have "\<dots> = main_loop 2 2 zero_A zero_B
        (''2\<newline>'' # ''FFFFFFFF\<newline>'' # ''1\<newline>'' # ''FFFFFFFF\<newline>'' # ''0\<newline>'' # ?rest) ([] @ [1]) []"
    by (rule main_loop_symbol) (simp_all add: s1 p1)
  also have "\<dots> = main_loop 2 2 zero_A zero_B
        (''FFFFFFFF\<newline>'' # ''1\<newline>'' # ''FFFFFFFF\<newline>'' # ''0\<newline>'' # ?rest) (([] @ [1]) @ [2]) []"
    by (rule main_loop_symbol) (simp_all add: s2 p2)
  also have "\<dots> = main_loop 2 2 zero_A zero_B (''FFFFFFFF\<newline>'' # ''0\<newline>'' # ?rest) [1]
        (write_output_str (write_output_float (foldl write_output_int [] [1, 1]) 0) ''FFFFFFFF'')"
    by (rule main_loop_sentinel_next) (simp_all add: sF s1 p1 r1)
  also have "\<dots> = (write_output_int (write_output_str (write_output_float
        (foldl write_output_int (write_output_str (write_output_float (foldl write_output_int [] [1, 1]) 0) ''FFFFFFFF'') [1]) 0)
        ''FFFFFFFF'') 0, None)"
    by (rule main_loop_sentinel_stop) (simp_all add: sF s0 r2)
  also have "\<dots> = (''1\<newline>1\<newline>00000000\<newline>FFFFFFFF\<newline>1\<newline>00000000\<newline>FFFFFFFF\<newline>0\<newline>'', None)"
    by (simp only: o1 o2)
  finally show "process_input 2 2 zero_A zero_B (''1\<newline>2\<newline>FFFFFFFF\<newline>1\<newline>FFFFFFFF\<newline>0\<newline>'' @ extra) =
     (''1\<newline>1\<newline>00000000\<newline>FFFFFFFF\<newline>1\<newline>00000000\<newline>FFFFFFFF\<newline>0\<newline>'', None)" .
qed

theorem sentinel_protocol_witness:
  "py_strip ''FFFFFFFF\<newline>'' = ''FFFFFFFF'' \<and>
   run_viterbi 2 2 zero_A zero_B [1, 2] = Inr ([1, 1], 0) \<and>
   py_strip ''0\<newline>'' = ''0'' \<and>
   main_loop 2 2 zero_A zero_B [''FFFFFFFF\<newline>'', ''0\<newline>'', ''9\<newline>''] [1, 2] [] =
     (write_output_int
        (write_output_str (write_output_float (foldl write_output_int [] [1, 1]) 0) ''FFFFFFFF'')
        0, None)"
proof -
  have h1: "py_strip ''FFFFFFFF\<newline>'' = ''FFFFFFFF''" by code_simp
  have h2: "run_viterbi 2 2 zero_A zero_B [1, 2] = Inr ([1, 1], 0)" by code_simp
  have h3: "py_strip ''0\<newline>'' = ''0''" by code_simp
  show ?thesis
    using h1 h2 h3
      sentinel_protocol [where raw = "''FFFFFFFF\<newline>''" and N = 2 and M = 2 and A = zero_A
        and Bm = zero_B and cur = "[1, 2]" and path = "[1, 1]" and prob = 0
        and raw_next = "''0\<newline>''" and rest = "[''9\<newline>'']" and out = "[]"]
    by blast
qed

section \<open>Lines of a sequence\<close>

text \<open>
  Claim C9, as amended.  While accumulating, a line that strips to \<^verbatim>\<open>"0"\<close> is skipped;
  every other line that is not the sentinel goes to \<^verbatim>\<open>int()\<close>: when that returns a
  value, whatever its sign, the value is appended to the current sequence, and when it raises,
  the run ends with \<^verbatim>\<open>ValueError\<close>.
\<close>

theorem accumulate_line:
  assumes "py_strip raw \<noteq> ''FFFFFFFF''"
  shows "(py_strip raw = ''0'' \<longrightarrow>
            main_loop N M A Bm (raw # rest) cur out = main_loop N M A Bm rest cur out) \<and>
         (py_strip raw \<noteq> ''0'' \<longrightarrow>
            (\<forall>v. py_int (py_strip raw) 10 = Inr v \<longrightarrow>
               main_loop N M A Bm (raw # rest) cur out = main_loop N M A Bm rest (cur @ [v]) out) \<and>
            ((\<forall>v. py_int (py_strip raw) 10 \<noteq> Inr v) \<longrightarrow>
               main_loop N M A Bm (raw # rest) cur out = (out, Some ValueError)))"
proof (intro conjI impI allI)
  assume "py_strip raw = ''0''"
  then show "main_loop N M A Bm (raw # rest) cur out = main_loop N M A Bm rest cur out"
    by (rule main_loop_zero)
next
  fix v assume "py_strip raw \<noteq> ''0''" "py_int (py_strip raw) 10 = Inr v"
  with assms show "main_loop N M A Bm (raw # rest) cur out = main_loop N M A Bm rest (cur @ [v]) out"
    by (rule main_loop_symbol)
next
  assume z: "py_strip raw \<noteq> ''0''" and n: "\<forall>v. py_int (py_strip raw) 10 \<noteq> Inr v"
  then obtain e where e: "py_int (py_strip raw) 10 = Inl e"
    by (cases "py_int (py_strip raw) 10") auto
  then have "e = ValueError" by (rule py_int_error)
  then show "main_loop N M A Bm (raw # rest) cur out = (out, Some ValueError)"
    using main_loop_bad_symbol [OF assms z e] by simp
qed

theorem accumulate_line_witness:
  "py_strip ''-5\<newline>'' \<noteq> ''FFFFFFFF'' \<and> py_strip ''-5\<newline>'' \<noteq> ''0'' \<and>
   py_int (py_strip ''-5\<newline>'') 10 = Inr (- 5) \<and>
   main_loop 2 2 zero_A zero_B [''-5\<newline>'', ''FFFFFFFF\<newline>'', ''0\<newline>''] [] [] =
     main_loop 2 2 zero_A zero_B [''FFFFFFFF\<newline>'', ''0\<newline>''] ([] @ [- 5]) []"
proof -
  have s: "py_strip ''-5\<newline>'' = ''-5''" by code_simp
  have h: "py_strip ''-5\<newline>'' \<noteq> ''FFFFFFFF''" by (simp add: s)
  have z: "py_strip ''-5\<newline>'' \<noteq> ''0''" by (simp add: s)
  have p: "py_int (py_strip ''-5\<newline>'') 10 = Inr (- 5)" unfolding s by code_simp
  show ?thesis
    using h z p accumulate_line [OF h, of 2 2 zero_A zero_B "[''FFFFFFFF\<newline>'', ''0\<newline>'']" "[]" "[]"]
    by blast
qed

theorem negative_symbol_counterexample:
  "py_int ''-1'' 10 = Inr (- 1) \<and>
   process_input 2 2 zero_A zero_B ''-1\<newline>FFFFFFFF\<newline>0\<newline>'' =
     (''1\<newline>00000000\<newline>FFFFFFFF\<newline>0\<newline>'', None)"
  by code_simp

section \<open>The states on the path\<close>

text \<open>
  Claim C10.  For a model with at least one state and symbols in range, the decoder returns,
  every backtrace pointer in \<open>B\<close> lies in \<open>0 .. n - 1\<close>, and every element of the returned
  path lies in \<open>1 .. n\<close>.
\<close>

theorem path_states_in_range:
  assumes "model_shape n m a_matrix b_matrix" "valid_sequence m obs" "obs \<noteq> []"
  shows "\<exists>st path prob.
     viterbi_tables n a_matrix b_matrix obs = Inr st \<and>
     run_viterbi n m a_matrix b_matrix obs = Inr (path, prob) \<and>
     (\<forall>t<length obs. \<forall>j<nat n. 0 \<le> B st ! t ! j \<and> B st ! t ! j < n) \<and>
     (\<forall>p \<in> set path. 1 \<le> p \<and> p \<le> n)"
proof -
  from run_viterbi_ok [OF assms] obtain st path fin where
    dec: "decoded n m a_matrix b_matrix obs st path fin" by blast
  have r: "viterbi_tables n a_matrix b_matrix obs = Inr st"
       "\<forall>j<nat n. V st ! 0 ! j = f32_add (a_matrix ! 0 ! j) (b_matrix ! j ! nat (obs ! 0 - 1)) \<and> B st ! 0 ! j = 0"
       "\<forall>t. 1 \<le> t \<and> t < length obs \<longrightarrow> row_ok (nat n) a_matrix b_matrix obs st t"
       "run_viterbi n m a_matrix b_matrix obs = Inr (path, fst fin)"
       "length path = length obs"
       "\<forall>t<length obs. 1 \<le> path ! t \<and> path ! t \<le> n"
    using dec by (simp_all add: decoded_def)
  note d = model_shape_dims [OF assms(1)]
  have rng: "0 \<le> B st ! t ! j \<and> B st ! t ! j < n" if t: "t < length obs" and j: "j < nat n" for t j
  proof (cases "t = 0")
    case True
    then show ?thesis using r(2) j d(2) by simp
  next
    case False
    then have "row_ok (nat n) a_matrix b_matrix obs st t" using r(3) t by simp
    then have "B st ! t ! j = snd (argmax_over (cand a_matrix (V st ! (t - 1)) j) [0..<nat n] (NEG_INF, 0))"
      using j by (simp add: row_ok_def)
    then show ?thesis using argmax_over_index [OF d(2)] d(1) by simp
  qed
  have "\<forall>p \<in> set path. 1 \<le> p \<and> p \<le> n"
    using r(5,6) by (auto simp: in_set_conv_nth)
  then show ?thesis using r(1,4) rng by blast
qed

theorem path_states_in_range_witness:
  "model_shape 2 3 example_A example_B \<and> valid_sequence 3 [3, 1, 2] \<and>
   (\<exists>st path prob.
     viterbi_tables 2 example_A example_B [3, 1, 2] = Inr st \<and>
     run_viterbi 2 3 example_A example_B [3, 1, 2] = Inr (path, prob) \<and>
     (\<forall>t<length [3, 1, 2 :: int]. \<forall>j<nat 2. 0 \<le> B st ! t ! j \<and> B st ! t ! j < 2) \<and>
     (\<forall>p \<in> set path. 1 \<le> p \<and> p \<le> 2))"
proof -
  have h1: "model_shape 2 3 example_A example_B"
    by (simp add: model_shape_def example_A_def example_B_def)
  have h2: "valid_sequence 3 [3, 1, 2]" by (simp add: valid_sequence_def)
  have h3: "[3, 1, 2 :: int] \<noteq> []" by simp
  show ?thesis using h1 h2 path_states_in_range [OF h1 h2 h3] by blast
qed

end
